theory Spec2Isabelle
  imports Complex_Main "HOL-Library.AList"
begin

section \<open>Python strings\<close>

text \<open>
  A Python \<open>str\<close> is modelled as a \<open>string\<close>, one \<open>char\<close> per code point (code points
  below 256). \<open>is_space\<close> is the whitespace of \<open>str.strip()\<close> and of the regular
  expression class \<open>\s\<close> on those code points: tab, line feed, vertical tab, form feed,
  carriage return, the separators 0x1C to 0x1F, space, 0x85 and 0xA0.
\<close>

definition is_space :: "char \<Rightarrow> bool" where
  "is_space c \<longleftrightarrow>
     c \<in> set [CHR 0x09, CHR 0x0A, CHR 0x0B, CHR 0x0C, CHR 0x0D, CHR 0x1C, CHR 0x1D,
                CHR 0x1E, CHR 0x1F, CHR 0x20, CHR 0x85, CHR 0xA0]"

text \<open>The character class \<open>[A-Z]\<close>.\<close>

definition is_upper :: "char \<Rightarrow> bool" where
  "is_upper c \<longleftrightarrow> c \<in> set ''ABCDEFGHIJKLMNOPQRSTUVWXYZ''"

text \<open>\<open>x.strip()\<close>: whitespace removed from both ends.\<close>

definition strip :: "string \<Rightarrow> string" where
  "strip s = rev (dropWhile is_space (rev (dropWhile is_space s)))"

text \<open>\<open>x.split(d)\<close> for a one-character separator: every occurrence splits, and empty
  tokens are kept (\<open>''''.split('','')\<close> is the list holding one empty string).\<close>

fun str_split :: "char \<Rightarrow> string \<Rightarrow> string list" where
  "str_split d [] = [[]]"
| "str_split d (c # cs) =
     (if c = d then [] # str_split d cs
      else (case str_split d cs of
              t # ts \<Rightarrow> (c # t) # ts
            | [] \<Rightarrow> [[c]]))"

text \<open>\<open>sep.join(xs)\<close>.\<close>

fun str_join :: "string \<Rightarrow> string list \<Rightarrow> string" where
  "str_join sep [] = []"
| "str_join sep [x] = x"
| "str_join sep (x # y # ys) = x @ sep @ str_join sep (y # ys)"

section \<open>The regular expression of the variant splitter\<close>

text \<open>
  The constructs the pattern \<open>\s*,\s*(?=[A-Z])\<close> is built from: one character of a class,
  a greedy star over a class, a lookahead for one character of a class, and sequencing.
\<close>

datatype rx =
    Chr "char \<Rightarrow> bool"
  | Star "char \<Rightarrow> bool"
  | Ahead "char \<Rightarrow> bool"
  | Seq rx rx

text \<open>
  \<open>rx_ends r s\<close> lists what is left of \<open>s\<close> after each way \<open>r\<close> matches at its start, in
  the order a backtracking matcher tries them: a greedy star tries the longest run first
  and gives characters back one at a time; a lookahead consumes nothing.
\<close>

fun rx_ends :: "rx \<Rightarrow> string \<Rightarrow> string list" where
  "rx_ends (Chr p) [] = []"
| "rx_ends (Chr p) (c # cs) = (if p c then [cs] else [])"
| "rx_ends (Star p) [] = [[]]"
| "rx_ends (Star p) (c # cs) = (if p c then rx_ends (Star p) cs @ [c # cs] else [c # cs])"
| "rx_ends (Ahead p) [] = []"
| "rx_ends (Ahead p) (c # cs) = (if p c then [c # cs] else [])"
| "rx_ends (Seq a b) s = concat (map (rx_ends b) (rx_ends a s))"

text \<open>\<open>pattern.match\<close>: the first alternative that succeeds, if any.\<close>

definition rx_match :: "rx \<Rightarrow> string \<Rightarrow> string option" where
  "rx_match r s = (case rx_ends r s of [] \<Rightarrow> None | t # _ \<Rightarrow> Some t)"

text \<open>\<open>pattern.search\<close>: the leftmost position where the pattern matches; the result is
  the text before the match and the text after it.\<close>

fun rx_search :: "rx \<Rightarrow> string \<Rightarrow> (string \<times> string) option" where
  "rx_search r [] = map_option (Pair []) (rx_match r [])"
| "rx_search r (c # cs) =
     (case rx_match r (c # cs) of
        Some t \<Rightarrow> Some ([], t)
      | None \<Rightarrow> map_option (\<lambda>(a, t). (c # a, t)) (rx_search r cs))"

text \<open>The pattern of \<open>make_entries\<close>, \<open>r'\s*,\s*(?=[A-Z])'\<close>.\<close>

definition variant_pat :: rx where
  "variant_pat =
     Seq (Star is_space) (Seq (Chr (\<lambda>c. c = CHR '','')) (Seq (Star is_space) (Ahead is_upper)))"

text \<open>What follows a comma decides whether the pattern matches there: optional whitespace
  and then an uppercase letter; the match ends in front of that letter.\<close>

definition after_comma :: "string \<Rightarrow> string option" where
  "after_comma r =
     (case dropWhile is_space r of
        [] \<Rightarrow> None
      | u # t \<Rightarrow> if is_upper u then Some (u # t) else None)"

lemma space_not_upper: "is_space c \<Longrightarrow> \<not> is_upper c"
  by (auto simp: is_space_def is_upper_def)

lemma space_not_comma: "is_space c \<Longrightarrow> c \<noteq> CHR '',''"
  by (auto simp: is_space_def)

lemma rx_ends_star_seq:
  assumes "\<And>c cs. p c \<Longrightarrow> rx_ends r (c # cs) = []"
  shows "rx_ends (Seq (Star p) r) s = rx_ends r (dropWhile p s)"
  using assms by (induction s) auto

lemma rx_ends_Ahead:
  "rx_ends (Ahead p) t = (case t of [] \<Rightarrow> [] | u # v \<Rightarrow> if p u then [u # v] else [])"
  by (cases t) auto

lemma rx_ends_Chr_Seq:
  "rx_ends (Seq (Chr p) r) t = (case t of [] \<Rightarrow> [] | c # v \<Rightarrow> if p c then rx_ends r v else [])"
  by (cases t) auto

lemma rx_ends_space_upper:
  "rx_ends (Seq (Star is_space) (Ahead is_upper)) s =
     (case dropWhile is_space s of [] \<Rightarrow> [] | u # t \<Rightarrow> if is_upper u then [u # t] else [])"
proof -
  have "rx_ends (Seq (Star is_space) (Ahead is_upper)) s =
        rx_ends (Ahead is_upper) (dropWhile is_space s)"
    by (rule rx_ends_star_seq) (simp add: space_not_upper)
  then show ?thesis by (simp only: rx_ends_Ahead)
qed

text \<open>Backtracking never finds a second way to match this pattern: a match at a position
  skips the whitespace there, takes the comma, skips the whitespace after it and stops in
  front of an uppercase letter.\<close>

lemma rx_match_variant_pat:
  "rx_match variant_pat s =
     (case dropWhile is_space s of
        [] \<Rightarrow> None
      | c # r \<Rightarrow> if c = CHR '','' then after_comma r else None)"
proof -
  let ?tail = "Seq (Chr (\<lambda>c. c = CHR '','')) (Seq (Star is_space) (Ahead is_upper))"
  define d where "d = dropWhile is_space s"
  have e: "rx_ends variant_pat s = rx_ends ?tail d"
    unfolding variant_pat_def d_def by (rule rx_ends_star_seq) (simp add: space_not_comma)
  have "(case rx_ends ?tail d of [] \<Rightarrow> None | t # _ \<Rightarrow> Some t) =
        (case d of [] \<Rightarrow> None | c # r \<Rightarrow> if c = CHR '','' then after_comma r else None)"
  proof (cases d)
    case Nil
    then show ?thesis by simp
  next
    case (Cons c r)
    define d' where "d' = dropWhile is_space r"
    have ac: "after_comma r =
        (case d' of [] \<Rightarrow> None | u # t \<Rightarrow> if is_upper u then Some (u # t) else None)"
      unfolding after_comma_def d'_def ..
    have "rx_ends ?tail (c # r) =
        (if c = CHR '','' then rx_ends (Seq (Star is_space) (Ahead is_upper)) r else [])"
      by (simp only: rx_ends_Chr_Seq list.case)
    also have "\<dots> =
        (if c = CHR '',''
         then (case d' of [] \<Rightarrow> [] | u # t \<Rightarrow> if is_upper u then [u # t] else [])
         else [])"
      unfolding d'_def by (simp only: rx_ends_space_upper)
    finally have E: "rx_ends ?tail (c # r) =
        (if c = CHR '',''
         then (case d' of [] \<Rightarrow> [] | u # t \<Rightarrow> if is_upper u then [u # t] else [])
         else [])" .
    show ?thesis
      unfolding Cons E by (cases d') (simp_all add: ac)
  qed
  then show ?thesis unfolding rx_match_def e d_def .
qed

lemma rx_match_variant_shorter:
  assumes "rx_match variant_pat s = Some t"
  shows "length t < length s"
proof -
  from assms obtain r where r: "dropWhile is_space s = CHR '','' # r"
    and a: "after_comma r = Some t"
    unfolding rx_match_variant_pat by (auto split: list.splits if_splits)
  from a have "dropWhile is_space r = t"
    by (auto simp: after_comma_def split: list.splits if_splits)
  then have "length t \<le> length r" by (metis length_dropWhile_le)
  moreover have "length (CHR '','' # r) \<le> length s" by (metis r length_dropWhile_le)
  ultimately show ?thesis by simp
qed

lemma rx_search_variant_shorter:
  "rx_search variant_pat s = Some (a, t) \<Longrightarrow> length t < length s"
proof (induction s arbitrary: a)
  case Nil
  then show ?case by (auto dest: rx_match_variant_shorter)
next
  case (Cons c cs)
  show ?case
  proof (cases "rx_match variant_pat (c # cs)")
    case None
    with Cons.prems obtain a' where "rx_search variant_pat cs = Some (a', t)" by auto
    then have "length t < length cs" by (rule Cons.IH)
    then show ?thesis by simp
  next
    case (Some u)
    with Cons.prems have "u = t" by simp
    with Some show ?thesis by (auto dest: rx_match_variant_shorter)
  qed
qed

text \<open>\<open>re.compile(r'\s*,\s*(?=[A-Z])').split(x)\<close>: the text between successive matches, the
  search resuming where the last match ended. Every match of this pattern holds a comma, so
  the rest gets shorter.\<close>

function re_split_variant :: "string \<Rightarrow> string list" where
  "re_split_variant s =
     (case rx_search variant_pat s of
        None \<Rightarrow> [s]
      | Some (a, t) \<Rightarrow> a # re_split_variant t)"
  by pat_completeness auto
termination
  by (relation "measure length") (auto dest: rx_search_variant_shorter)

declare re_split_variant.simps [simp del]

section \<open>The data\<close>

text \<open>
  Exceptions that end a run. \<open>AttributeError\<close>: the \<open>.str\<close> accessor on a column holding
  no text, or \<open>.stack()\<close> on what \<open>apply\<close> returns for an empty column; \<open>ValueError\<close>:
  \<open>astype(int)\<close> on text that is no integer literal; \<open>OverflowError\<close>: \<open>astype(int)\<close> on
  a Python object whose integer does not fit 64 bits; \<open>KeyError\<close>: a missing sheet;
  \<open>DatabaseError\<close>: a query on a file that is no database or has no such table or column.
\<close>

datatype py_error =
    KeyError | ValueError | OverflowError | AttributeError | DatabaseError | FileNotFoundError
  | BadExcelFile

text \<open>
  A cell of the \<open>Tier\<close> column as read from the sheet: blank (NaN), a number, or text. A
  number of a sheet is a finite double, whole or not; it is kept here as the rational it
  is.
\<close>

datatype tier_cell = TierNaN | TierNum rat | TierStr string

text \<open>
  One row of the sheet \<open>Interpretations\<close>. A text cell is \<open>Some s\<close>, a blank cell (NaN) is
  \<open>None\<close>. \<open>raw_Citations\<close> holds the cells of the column \<open>Citations\<close> and of every column
  to its right, left to right.
\<close>

record raw_row =
  raw_Tumor_Types :: "string option"
  raw_Tissue_Types :: "string option"
  raw_Variants :: "string option"
  raw_Gene :: "string option"
  raw_Tier :: tier_cell
  raw_Interpretations :: "string option"
  raw_Citations :: "string option list"

text \<open>One row of the data frame \<open>clean_pmkb_df\<close> returns.\<close>

record row =
  Source :: nat
  TumorType :: "string option"
  TissueType :: "string option"
  Variant :: "string option"
  Gene :: "string option"
  Tier :: int
  Interpretation :: "string option"
  Citation :: string

text \<open>One row of the data frame \<open>make_entries\<close> returns.\<close>

record entry =
  entry_Source :: nat
  entry_TumorType :: string
  entry_TissueType :: string
  entry_Variant :: string
  entry_Tier :: int
  entry_Gene :: "string option"

section \<open>clean_pmkb_df\<close>

text \<open>
  The citation columns of one row, as
  \<^verbatim>\<open>df.loc[:, 'Citation':].fillna('').astype(str).apply(lambda x: '\n'.join(x).strip(), axis=1)\<close>
  computes them: a blank cell becomes the empty string, the cells are joined with line
  feeds, and the joined text is stripped.
\<close>

definition fillna_str :: "string option \<Rightarrow> string" where
  "fillna_str c = (case c of None \<Rightarrow> [] | Some s \<Rightarrow> s)"

definition collapse_citations :: "string option list \<Rightarrow> string" where
  "collapse_citations cells = strip (str_join [CHR 0x0A] (map fillna_str cells))"

text \<open>
  \<open>int(s)\<close> on text, base ten: surrounding whitespace is dropped, one sign may lead, then
  digits, where single underscores may stand between two digits.
\<close>

definition is_digit :: "char \<Rightarrow> bool" where
  "is_digit c \<longleftrightarrow> c \<in> set ''0123456789''"

definition digit_val :: "char \<Rightarrow> nat" where
  "digit_val c = length (takeWhile (\<lambda>d. d \<noteq> c) ''0123456789'')"

fun py_digits :: "nat \<Rightarrow> string \<Rightarrow> nat option" where
  "py_digits acc [] = Some acc"
| "py_digits acc [c] = (if is_digit c then Some (10 * acc + digit_val c) else None)"
| "py_digits acc (c # d # cs) =
     (if is_digit c then py_digits (10 * acc + digit_val c) (d # cs)
      else if c = CHR ''_'' \<and> is_digit d then py_digits acc (d # cs)
      else None)"

definition py_nat :: "string \<Rightarrow> nat option" where
  "py_nat s = (case s of [] \<Rightarrow> None | c # _ \<Rightarrow> if is_digit c then py_digits 0 s else None)"

definition py_int :: "string \<Rightarrow> int option" where
  "py_int s =
     (case strip s of
        [] \<Rightarrow> None
      | c # cs \<Rightarrow>
          if c = CHR ''-'' then map_option (\<lambda>n. - int n) (py_nat cs)
          else if c = CHR ''+'' then map_option int (py_nat cs)
          else map_option int (py_nat (c # cs)))"

text \<open>
  \<open>astype(int)\<close> makes a column of 64-bit integers. What it does with a cell depends on
  the column's dtype. A column with a text cell is of dtype \<open>object\<close> and holds Python
  objects; a column of numbers and blanks is a column of doubles.
\<close>

definition object_dtype :: "tier_cell list \<Rightarrow> bool" where
  "object_dtype col = list_ex (\<lambda>c. case c of TierStr _ \<Rightarrow> True | _ \<Rightarrow> False) col"

definition int64 :: "int \<Rightarrow> bool" where
  "int64 n \<longleftrightarrow> - (2 ^ 63) \<le> n \<and> n < 2 ^ 63"

text \<open>A number to an integer, as the cast of a double and \<open>int\<close> of a float both do it:
  the fraction is dropped, toward zero.\<close>

definition trunc :: "rat \<Rightarrow> int" where
  "trunc q = (if 0 \<le> q then \<lfloor>q\<rfloor> else \<lceil>q\<rceil>)"

text \<open>
  \<open>df.Tier.fillna(0).astype(int)\<close> on one cell. A blank cell is 0. A number is truncated.
  Text goes through \<open>int\<close> and raises \<open>ValueError\<close> when it is no integer literal. An
  integer that does not fit 64 bits is not kept: in a column of dtype \<open>object\<close> storing
  it raises \<open>OverflowError\<close>; in a column of doubles the cast does not raise, and its
  result is the machine's, \<open>- 2 ^ 63\<close> from the conversion instruction of x86-64.
\<close>

definition tier_astype_int :: "bool \<Rightarrow> tier_cell \<Rightarrow> py_error + int" where
  "tier_astype_int obj c =
     (case c of
        TierNaN \<Rightarrow> Inr 0
      | TierNum q \<Rightarrow>
          if int64 (trunc q) then Inr (trunc q)
          else if obj then Inl OverflowError
          else Inr (- (2 ^ 63))
      | TierStr s \<Rightarrow>
          (case py_int s of
             None \<Rightarrow> Inl ValueError
           | Some n \<Rightarrow> if int64 n then Inr n else Inl OverflowError))"

text \<open>A column is converted cell by cell; the first cell that raises ends the conversion.\<close>

fun astype_all :: "bool \<Rightarrow> tier_cell list \<Rightarrow> py_error + int list" where
  "astype_all obj [] = Inr []"
| "astype_all obj (c # cs) =
     (case tier_astype_int obj c of
        Inl e \<Rightarrow> Inl e
      | Inr n \<Rightarrow> (case astype_all obj cs of Inl e \<Rightarrow> Inl e | Inr ns \<Rightarrow> Inr (n # ns)))"

text \<open>The cleaned row: the columns renamed, the citations collapsed, \<open>Source\<close> the row's
  position in the sheet (\<open>reset_index\<close>), the tier an integer.\<close>

definition clean_row :: "nat \<Rightarrow> raw_row \<Rightarrow> int \<Rightarrow> row" where
  "clean_row i r t =
     \<lparr>Source = i,
      TumorType = raw_Tumor_Types r,
      TissueType = raw_Tissue_Types r,
      Variant = raw_Variants r,
      Gene = raw_Gene r,
      Tier = t,
      Interpretation = raw_Interpretations r,
      Citation = collapse_citations (raw_Citations r)\<rparr>"

definition clean_pmkb_df :: "raw_row list \<Rightarrow> py_error + row list" where
  "clean_pmkb_df df =
     (case astype_all (object_dtype (map raw_Tier df)) (map raw_Tier df) of
        Inl e \<Rightarrow> Inl e
      | Inr tiers \<Rightarrow>
          Inr (map (\<lambda>(i, r, t). clean_row i r t) (zip [0..<length df] (zip df tiers))))"

section \<open>make_entries\<close>

text \<open>
  \<^verbatim>\<open>df[col].str.split(pat).apply(pd.Series, 1).stack().map(lambda x: x.strip())\<close> followed
  by \<open>reset_index()\<close>, keeping the row label and the token. The \<open>.str\<close> accessor needs a
  text cell in the column (a blank column is a column of floats, and an empty one gives no
  frame to stack): \<open>AttributeError\<close> otherwise. A blank cell splits to NaN, which
  \<open>stack\<close> drops, so the row contributes no token; a text cell contributes each of its
  tokens, stripped, in order. The label is the row's position in the frame.
\<close>

definition tokens :: "(string \<Rightarrow> string list) \<Rightarrow> string option \<Rightarrow> string list" where
  "tokens split c = (case c of None \<Rightarrow> [] | Some s \<Rightarrow> map strip (split s))"

definition split_stack ::
  "(string \<Rightarrow> string list) \<Rightarrow> string option list \<Rightarrow> py_error + (nat \<times> string) list" where
  "split_stack split col =
     (if list_all (\<lambda>c. c = None) col then Inl AttributeError
      else Inr (concat (map (\<lambda>(i, c). map (Pair i) (tokens split c))
                           (zip [0..<length col] col))))"

text \<open>\<open>pd.merge(left, right, on='Source')\<close>, an inner join: each left row, in order, paired
  with every right row of the same key, in order.\<close>

definition merge_on_Source :: "(nat \<times> 'a) list \<Rightarrow> (nat \<times> 'b) list \<Rightarrow> (nat \<times> 'a \<times> 'b) list" where
  "merge_on_Source left right =
     concat (map (\<lambda>(k, a). map (\<lambda>(_, b). (k, a, b)) (filter (\<lambda>(k', _). k' = k) right)) left)"

text \<open>A row of the merged frame, its columns in the order the merges add them.\<close>

definition mk_entry ::
  "nat \<times> (((string \<times> string) \<times> string) \<times> int) \<times> string option \<Rightarrow> entry" where
  "mk_entry = (\<lambda>(s, (((tu, ti), v), t), g).
                 \<lparr>entry_Source = s, entry_TumorType = tu, entry_TissueType = ti,
                  entry_Variant = v, entry_Tier = t, entry_Gene = g\<rparr>)"

definition make_entries :: "row list \<Rightarrow> py_error + entry list" where
  "make_entries df =
     (let tier = map (\<lambda>r. (Source r, Tier r)) df;
          gene = map (\<lambda>r. (Source r, Gene r)) df
      in case split_stack (str_split CHR '','') (map TumorType df) of
           Inl e \<Rightarrow> Inl e
         | Inr tumor \<Rightarrow>
        (case split_stack (str_split CHR '','') (map TissueType df) of
           Inl e \<Rightarrow> Inl e
         | Inr tissue \<Rightarrow>
        (case split_stack re_split_variant (map Variant df) of
           Inl e \<Rightarrow> Inl e
         | Inr variant \<Rightarrow>
             let df2 = merge_on_Source tumor tissue;
                 df2 = merge_on_Source df2 variant;
                 df2 = merge_on_Source df2 tier;
                 df2 = merge_on_Source df2 gene
             in Inr (map mk_entry df2))))"

section \<open>Frames as they are written\<close>

text \<open>
  What \<open>to_csv\<close> and \<open>to_sql\<close> write is the frame column by column: the column's name
  and its cells, in the frame's column order. The cleaned frame has \<open>Source\<close> first
  (\<open>reset_index\<close>) and then the sheet's columns, the citation columns collapsed into
  \<open>Citation\<close>.
\<close>

datatype cell = CNaN | CStr string | CInt int

type_synonym table = "(string \<times> cell list) list"

definition opt_cell :: "string option \<Rightarrow> cell" where
  "opt_cell c = (case c of None \<Rightarrow> CNaN | Some s \<Rightarrow> CStr s)"

definition df_table :: "row list \<Rightarrow> table" where
  "df_table df =
     [(''Source'', map (\<lambda>r. CInt (int (Source r))) df),
      (''TumorType'', map (\<lambda>r. opt_cell (TumorType r)) df),
      (''TissueType'', map (\<lambda>r. opt_cell (TissueType r)) df),
      (''Variant'', map (\<lambda>r. opt_cell (Variant r)) df),
      (''Gene'', map (\<lambda>r. opt_cell (Gene r)) df),
      (''Tier'', map (\<lambda>r. CInt (Tier r)) df),
      (''Interpretation'', map (\<lambda>r. opt_cell (Interpretation r)) df),
      (''Citation'', map (\<lambda>r. CStr (Citation r)) df)]"

definition entries_table :: "entry list \<Rightarrow> table" where
  "entries_table es =
     [(''Source'', map (\<lambda>e. CInt (int (entry_Source e))) es),
      (''TumorType'', map (\<lambda>e. CStr (entry_TumorType e)) es),
      (''TissueType'', map (\<lambda>e. CStr (entry_TissueType e)) es),
      (''Variant'', map (\<lambda>e. CStr (entry_Variant e)) es),
      (''Tier'', map (\<lambda>e. CInt (entry_Tier e)) es),
      (''Gene'', map (\<lambda>e. opt_cell (entry_Gene e)) es)]"

text \<open>\<open>df[[c1, c2, ...]]\<close>: the named columns, in the order asked for; \<open>KeyError\<close> when one
  is missing.\<close>

fun select_columns :: "string list \<Rightarrow> table \<Rightarrow> py_error + table" where
  "select_columns [] t = Inr []"
| "select_columns (n # ns) t =
     (case map_of t n of
        None \<Rightarrow> Inl KeyError
      | Some c \<Rightarrow> (case select_columns ns t of Inl e \<Rightarrow> Inl e | Inr cs \<Rightarrow> Inr ((n, c) # cs)))"

definition make_interpretations :: "table \<Rightarrow> py_error + table" where
  "make_interpretations df = select_columns [''Source'', ''Interpretation'', ''Citation''] df"

section \<open>Files and the main function\<close>

text \<open>
  The files a run reads and writes: the workbook (its sheets by name), the tab-separated
  and the comma-separated table, the SQLite database (its tables by name) and a text file.
  The file system maps a path to its file.
\<close>

datatype disk_file =
    Xlsx "(string \<times> raw_row list) list"
  | Tsv table
  | Csv table
  | Sqlite "(string \<times> table) list"
  | Txt string

type_synonym fs = "string \<rightharpoonup> disk_file"

definition xlsx2df :: "string \<Rightarrow> fs \<Rightarrow> py_error + raw_row list" where
  "xlsx2df xlsx_file fs =
     (case fs xlsx_file of
        None \<Rightarrow> Inl FileNotFoundError
      | Some (Xlsx xls_dict) \<Rightarrow>
          (case map_of xls_dict ''Interpretations'' of
             None \<Rightarrow> Inl KeyError
           | Some df \<Rightarrow> Inr df)
      | Some _ \<Rightarrow> Inl BadExcelFile)"

definition save_interpretations :: "table \<Rightarrow> string \<Rightarrow> fs \<Rightarrow> py_error + fs" where
  "save_interpretations df output fs = Inr (fs(output \<mapsto> Tsv df))"

definition save_entries :: "table \<Rightarrow> string \<Rightarrow> fs \<Rightarrow> py_error + fs" where
  "save_entries df output fs = Inr (fs(output \<mapsto> Csv df))"

text \<open>\<open>sqlite3.connect\<close> opens the database at the path, a new one when there is no file;
  \<open>to_sql(..., if_exists = "replace")\<close> replaces the table of that name and leaves the
  others. A file that is no database raises.\<close>

definition save_db :: "table \<Rightarrow> table \<Rightarrow> string \<Rightarrow> fs \<Rightarrow> py_error + fs" where
  "save_db interpretations entries output fs =
     (case fs output of
        None \<Rightarrow>
          Inr (fs(output \<mapsto> Sqlite (AList.update ''entries'' entries
                                   (AList.update ''interpretations'' interpretations []))))
      | Some (Sqlite conn) \<Rightarrow>
          Inr (fs(output \<mapsto> Sqlite (AList.update ''entries'' entries
                                   (AList.update ''interpretations'' interpretations conn))))
      | Some _ \<Rightarrow> Inl DatabaseError)"

text \<open>\<open>Series.unique()\<close>: the distinct values, each at its first occurrence.\<close>

definition unique :: "'a list \<Rightarrow> 'a list" where
  "unique xs = rev (remdups (rev xs))"

text \<open>\<open>"{0}\n".format(x)\<close> for a value read back from the database: text as it is, NULL
  as \<open>None\<close>, an integer in decimal.\<close>

fun str_of_nat :: "nat \<Rightarrow> string" where
  "str_of_nat n =
     (if n < 10 then [''0123456789'' ! n]
      else str_of_nat (n div 10) @ [''0123456789'' ! (n mod 10)])"

declare str_of_nat.simps [simp del]

definition format_line :: "cell \<Rightarrow> string" where
  "format_line c =
     (case c of
        CStr s \<Rightarrow> s
      | CNaN \<Rightarrow> ''None''
      | CInt i \<Rightarrow> (if i < 0 then CHR ''-'' # str_of_nat (nat (- i)) else str_of_nat (nat i)))
     @ [CHR 0x0A]"

text \<open>\<open>pd.read_sql_query("select <column> from entries;", conn)[column].unique()\<close>, written
  one value per line.\<close>

definition save_db_column :: "string \<Rightarrow> string \<Rightarrow> string \<Rightarrow> fs \<Rightarrow> py_error + fs" where
  "save_db_column column db output fs =
     (case fs db of
        Some (Sqlite conn) \<Rightarrow>
          (case map_of conn ''entries'' of
             None \<Rightarrow> Inl DatabaseError
           | Some entries \<Rightarrow>
               (case map_of entries column of
                  None \<Rightarrow> Inl DatabaseError
                | Some values \<Rightarrow>
                    Inr (fs(output \<mapsto> Txt (concat (map format_line (unique values)))))))
      | _ \<Rightarrow> Inl DatabaseError)"

text \<open>\<open>save_db_tissues\<close> selects \<open>TumorType\<close> and \<open>save_db_tumor\<close> selects \<open>TissueType\<close>,
  as the source has them.\<close>

definition save_db_tissues :: "string \<Rightarrow> string \<Rightarrow> fs \<Rightarrow> py_error + fs" where
  "save_db_tissues db output fs = save_db_column ''TumorType'' db output fs"

definition save_db_tumor :: "string \<Rightarrow> string \<Rightarrow> fs \<Rightarrow> py_error + fs" where
  "save_db_tumor db output fs = save_db_column ''TissueType'' db output fs"

text \<open>The arguments \<open>parse\<close> hands to \<open>main\<close>: the workbook's path and, for each output,
  the path given with its flag or \<open>None\<close>.\<close>

record args =
  pmkb_xlsx :: string
  pmkb_db :: "string option"
  interpretations_file :: "string option"
  entries_file :: "string option"
  tumors_file :: "string option"
  tissues_file :: "string option"

text \<open>\<open>if flag: step(flag)\<close>: \<open>None\<close> and the empty string are false.\<close>

definition if_given ::
  "string option \<Rightarrow> (string \<Rightarrow> fs \<Rightarrow> py_error + fs) \<Rightarrow> fs \<Rightarrow> py_error + fs" where
  "if_given flag step fs =
     (case flag of
        None \<Rightarrow> Inr fs
      | Some p \<Rightarrow> if p = [] then Inr fs else step p fs)"

text \<open>One statement after another; an exception ends the run.\<close>

definition and_then :: "py_error + fs \<Rightarrow> (fs \<Rightarrow> py_error + fs) \<Rightarrow> py_error + fs" where
  "and_then r step = (case r of Inl e \<Rightarrow> Inl e | Inr fs \<Rightarrow> step fs)"

text \<open>\<open>main\<close>: the interpretations it saves are the whole cleaned frame
  (\<open>interpretations = pmkb_df\<close>; the call of \<open>make_interpretations\<close> is commented out).\<close>

definition main :: "args \<Rightarrow> fs \<Rightarrow> py_error + fs" where
  "main a fs =
     (case xlsx2df (pmkb_xlsx a) fs of
        Inl e \<Rightarrow> Inl e
      | Inr sheet \<Rightarrow>
     (case clean_pmkb_df sheet of
        Inl e \<Rightarrow> Inl e
      | Inr pmkb_df \<Rightarrow>
     (let interpretations = df_table pmkb_df
      in case make_entries pmkb_df of
        Inl e \<Rightarrow> Inl e
      | Inr entries_df \<Rightarrow>
          (let entries = entries_table entries_df
           in and_then (and_then (and_then (and_then
                (if_given (interpretations_file a) (save_interpretations interpretations) fs)
                (if_given (entries_file a) (save_entries entries)))
                (if_given (pmkb_db a) (save_db interpretations entries)))
                (if_given (tumors_file a) (\<lambda>output.
                   if_given (pmkb_db a) (\<lambda>db. save_db_tumor db output))))
                (if_given (tissues_file a) (\<lambda>output.
                   if_given (pmkb_db a) (\<lambda>db. save_db_tissues db output)))))))"

section \<open>The matcher\<close>

text \<open>
  Modelled from the spec: the modules \<open>ir\<close> and \<open>pmkb\<close> that \<open>make_report\<close> calls
  (\<open>IRTable.lookup_all_interpretations\<close>, \<open>PMKB\<close>) are not among the source files, so
  \<open>find_interpretations\<close> follows section 4.2 of the specification: the entries whose gene
  and variant equal the sample's, restricted by the tumor and the tissue context when they
  are given; their distinct source ids; ascending by tier; each id resolved to its
  interpretation. A sample with no variant description is an invalid query.
\<close>

record sample_variant =
  gene :: string
  variant_description :: "string option"
  tumor_context :: "string option"
  tissue_context :: "string option"

record interpretation_row =
  source_id :: nat
  interpretation_text :: "string option"
  citations :: string

datatype query_error = InvalidQueryError

definition in_context :: "string option \<Rightarrow> string \<Rightarrow> bool" where
  "in_context ctx v = (case ctx of None \<Rightarrow> True | Some c \<Rightarrow> v = c)"

definition matches :: "sample_variant \<Rightarrow> string \<Rightarrow> entry \<Rightarrow> bool" where
  "matches sv vd e \<longleftrightarrow>
     entry_Gene e = Some (gene sv) \<and> entry_Variant e = vd \<and>
     in_context (tumor_context sv) (entry_TumorType e) \<and>
     in_context (tissue_context sv) (entry_TissueType e)"

definition tier_of :: "entry list \<Rightarrow> nat \<Rightarrow> int" where
  "tier_of es s = (case find (\<lambda>e. entry_Source e = s) es of None \<Rightarrow> 0 | Some e \<Rightarrow> entry_Tier e)"

definition find_interpretations ::
  "sample_variant \<Rightarrow> entry list \<Rightarrow> interpretation_row list \<Rightarrow> query_error + interpretation_row list" where
  "find_interpretations sv entries interpretations =
     (case variant_description sv of
        None \<Rightarrow> Inl InvalidQueryError
      | Some vd \<Rightarrow>
          (let surviving = filter (matches sv vd) entries;
               ids = unique (map entry_Source surviving);
               ordered = sort_key (tier_of surviving) ids
           in Inr (List.map_filter (\<lambda>s. find (\<lambda>i. source_id i = s) interpretations) ordered)))"

section \<open>Auxiliary notions\<close>

text \<open>The rows of a keyed frame that carry a given \<open>Source\<close>, without the key.\<close>

definition with_Source :: "nat \<Rightarrow> (nat \<times> 'a) list \<Rightarrow> 'a list" where
  "with_Source k xs = map snd (filter (\<lambda>p. fst p = k) xs)"

text \<open>
  The splitting rule in the specification's words, to compare the code with: a comma
  splits when optional whitespace and then an uppercase letter follow it; the text is cut
  at each such comma, which is dropped.
\<close>

definition comma_splits :: "string \<Rightarrow> bool" where
  "comma_splits r \<longleftrightarrow> (case dropWhile is_space r of [] \<Rightarrow> False | u # _ \<Rightarrow> is_upper u)"

fun spec_variant_split :: "string \<Rightarrow> string list" where
  "spec_variant_split [] = [[]]"
| "spec_variant_split (c # cs) =
     (if c = CHR '','' \<and> comma_splits cs then [] # spec_variant_split cs
      else (case spec_variant_split cs of
              t # ts \<Rightarrow> (c # t) # ts
            | [] \<Rightarrow> [[c]]))"

text \<open>A citation is tidy when it is not empty and has no whitespace at either end.\<close>

definition tidy :: "string \<Rightarrow> bool" where
  "tidy x \<longleftrightarrow> x \<noteq> [] \<and> \<not> is_space (hd x) \<and> \<not> is_space (last x)"

text \<open>A sheet of two facts, its cleaned frame and its entries.\<close>

definition example_sheet :: "raw_row list" where
  "example_sheet =
    [\<lparr>raw_Tumor_Types = Some ''Lung Cancer, Glioma'', raw_Tissue_Types = Some ''Lung'',
      raw_Variants = Some ''L858R'', raw_Gene = Some ''EGFR'', raw_Tier = TierNum 1,
      raw_Interpretations = Some ''Sensitising mutation.'', raw_Citations = [Some ''A'', None, Some ''B'']\<rparr>,
     \<lparr>raw_Tumor_Types = Some ''Melanoma'', raw_Tissue_Types = Some ''Skin, Eye'',
      raw_Variants = Some ''V600E, V600K'', raw_Gene = Some ''BRAF'', raw_Tier = TierNaN,
      raw_Interpretations = None, raw_Citations = [None, None, None]\<rparr>]"

definition example_df :: "row list" where
  "example_df =
    [\<lparr>Source = 0, TumorType = Some ''Lung Cancer, Glioma'', TissueType = Some ''Lung'',
      Variant = Some ''L858R'', Gene = Some ''EGFR'', Tier = 1,
      Interpretation = Some ''Sensitising mutation.'', Citation = ''A'' @ [CHR 0x0A, CHR 0x0A] @ ''B''\<rparr>,
     \<lparr>Source = 1, TumorType = Some ''Melanoma'', TissueType = Some ''Skin, Eye'',
      Variant = Some ''V600E, V600K'', Gene = Some ''BRAF'', Tier = 0,
      Interpretation = None, Citation = []\<rparr>]"

definition example_entries_df :: "entry list" where
  "example_entries_df =
     [\<lparr>entry_Source = 0, entry_TumorType = ''Lung Cancer'', entry_TissueType = ''Lung'',
       entry_Variant = ''L858R'', entry_Tier = 1, entry_Gene = Some ''EGFR''\<rparr>,
      \<lparr>entry_Source = 0, entry_TumorType = ''Glioma'', entry_TissueType = ''Lung'',
       entry_Variant = ''L858R'', entry_Tier = 1, entry_Gene = Some ''EGFR''\<rparr>,
      \<lparr>entry_Source = 1, entry_TumorType = ''Melanoma'', entry_TissueType = ''Skin'',
       entry_Variant = ''V600E'', entry_Tier = 0, entry_Gene = Some ''BRAF''\<rparr>,
      \<lparr>entry_Source = 1, entry_TumorType = ''Melanoma'', entry_TissueType = ''Skin'',
       entry_Variant = ''V600K'', entry_Tier = 0, entry_Gene = Some ''BRAF''\<rparr>,
      \<lparr>entry_Source = 1, entry_TumorType = ''Melanoma'', entry_TissueType = ''Eye'',
       entry_Variant = ''V600E'', entry_Tier = 0, entry_Gene = Some ''BRAF''\<rparr>,
      \<lparr>entry_Source = 1, entry_TumorType = ''Melanoma'', entry_TissueType = ''Eye'',
       entry_Variant = ''V600K'', entry_Tier = 0, entry_Gene = Some ''BRAF''\<rparr>]"

text \<open>A sheet whose first fact has no tumor type.\<close>

definition blank_tumor_sheet :: "raw_row list" where
  "blank_tumor_sheet =
    [\<lparr>raw_Tumor_Types = None, raw_Tissue_Types = Some ''Lung'',
      raw_Variants = Some ''L858R'', raw_Gene = Some ''EGFR'', raw_Tier = TierNum 1,
      raw_Interpretations = Some ''Sensitising mutation.'', raw_Citations = [Some ''A'']\<rparr>,
     \<lparr>raw_Tumor_Types = Some ''Melanoma'', raw_Tissue_Types = Some ''Skin'',
      raw_Variants = Some ''V600E'', raw_Gene = Some ''BRAF'', raw_Tier = TierNum 2,
      raw_Interpretations = None, raw_Citations = [None]\<rparr>]"

definition blank_tumor_df :: "row list" where
  "blank_tumor_df =
    [\<lparr>Source = 0, TumorType = None, TissueType = Some ''Lung'', Variant = Some ''L858R'',
      Gene = Some ''EGFR'', Tier = 1, Interpretation = Some ''Sensitising mutation.'',
      Citation = ''A''\<rparr>,
     \<lparr>Source = 1, TumorType = Some ''Melanoma'', TissueType = Some ''Skin'',
      Variant = Some ''V600E'', Gene = Some ''BRAF'', Tier = 2, Interpretation = None,
      Citation = []\<rparr>]"

text \<open>The path a flag supplies, if any: \<open>None\<close> and the empty string select nothing.\<close>

definition supplied :: "string option \<Rightarrow> string list" where
  "supplied flag = (case flag of None \<Rightarrow> [] | Some p \<Rightarrow> if p = [] then [] else [p])"

text \<open>The paths the guards of \<open>main\<close> select, in the order of its steps: the term files
  only together with the database.\<close>

definition outputs :: "args \<Rightarrow> string list" where
  "outputs a =
     supplied (interpretations_file a) @ supplied (entries_file a) @ supplied (pmkb_db a) @
     (if supplied (pmkb_db a) = [] then []
      else supplied (tumors_file a) @ supplied (tissues_file a))"

text \<open>The term files a flag selects: none without the database flag.\<close>

definition term_paths :: "args \<Rightarrow> string option \<Rightarrow> string list" where
  "term_paths a flag = (if supplied (pmkb_db a) = [] then [] else supplied flag)"

text \<open>A file system that holds the workbook of the example sheet, and runs of \<open>main\<close>
  on it: every output asked for, the interpretations alone, the tumor terms alone.\<close>

definition example_fs :: fs where
  "example_fs = [''pmkb.xlsx'' \<mapsto> Xlsx [(''Interpretations'', example_sheet)]]"

definition all_outputs :: args where
  "all_outputs =
     \<lparr>pmkb_xlsx = ''pmkb.xlsx'', pmkb_db = Some ''pmkb.db'',
      interpretations_file = Some ''pmkb.interpretations.tsv'',
      entries_file = Some ''pmkb.entries.csv'',
      tumors_file = Some ''pmkb.tumor-terms.txt'',
      tissues_file = Some ''pmkb.tissue-terms.txt''\<rparr>"

definition interpretations_only :: args where
  "interpretations_only =
     \<lparr>pmkb_xlsx = ''pmkb.xlsx'', pmkb_db = None,
      interpretations_file = Some ''pmkb.interpretations.tsv'',
      entries_file = None, tumors_file = None, tissues_file = None\<rparr>"

definition tumors_only :: args where
  "tumors_only =
     \<lparr>pmkb_xlsx = ''pmkb.xlsx'', pmkb_db = None, interpretations_file = None,
      entries_file = None, tumors_file = Some ''pmkb.tumor-terms.txt'', tissues_file = None\<rparr>"







text \<open>The interpretations of the example sheet, and a query for one of its variants.\<close>

definition example_interpretations :: "interpretation_row list" where
  "example_interpretations =
     [\<lparr>source_id = 0, interpretation_text = Some ''Sensitising mutation.'',
       citations = ''A'' @ [CHR 0x0A, CHR 0x0A] @ ''B''\<rparr>,
      \<lparr>source_id = 1, interpretation_text = None, citations = []\<rparr>]"

definition egfr_query :: sample_variant where
  "egfr_query =
     \<lparr>gene = ''EGFR'', variant_description = Some ''L858R'', tumor_context = None,
      tissue_context = None\<rparr>"

section \<open>Properties\<close>

subsection \<open>Joins and stacks, by source\<close>

lemma with_Source_simps [simp]:
  "with_Source k [] = []"
  "with_Source k ((j, v) # xs) = (if j = k then v # with_Source k xs else with_Source k xs)"
  "with_Source k (xs @ ys) = with_Source k xs @ with_Source k ys"
  by (simp_all add: with_Source_def)

lemma with_Source_map_Pair: "with_Source k (map (Pair j) vs) = (if j = k then vs else [])"
  by (induction vs) auto

lemma with_Source_merge:
  "with_Source k (merge_on_Source l r) = List.product (with_Source k l) (with_Source k r)"
proof (induction l)
  case Nil
  then show ?case by (simp add: merge_on_Source_def)
next
  case (Cons p l)
  obtain j a where p: "p = (j, a)" by (cases p)
  have m: "merge_on_Source (p # l) r =
      map (\<lambda>(_, b). (j, a, b)) (filter (\<lambda>(k', _). k' = j) r) @ merge_on_Source l r"
    by (simp add: merge_on_Source_def p)
  have h: "with_Source k (map (\<lambda>(_, b). (j, a, b)) (filter (\<lambda>(k', _). k' = j) r)) =
      (if j = k then map (Pair a) (with_Source k r) else [])"
    by (induction r) auto
  show ?case unfolding m by (simp add: h p Cons.IH)
qed

lemma with_Source_stack:
  "with_Source k (concat (map (\<lambda>(i, c). map (Pair i) (g c)) ps)) = concat (map g (with_Source k ps))"
  by (induction ps) (auto simp: with_Source_map_Pair)

lemma with_Source_index:
  "with_Source k (zip [0..<length xs] xs) = (if k < length xs then [xs ! k] else [])"
proof (induction xs rule: rev_induct)
  case Nil
  then show ?case by simp
next
  case (snoc x xs)
  have "zip [0..<length (xs @ [x])] (xs @ [x]) = zip [0..<length xs] xs @ [(length xs, x)]"
    by simp
  then show ?case using snoc by (auto simp: nth_append)
qed

lemma keyed_by_index:
  assumes "map Source df = [0..<length df]"
  shows "map (\<lambda>r. (Source r, f r)) df = zip [0..<length df] (map f df)"
proof -
  have "map (\<lambda>r. (Source r, f r)) df = zip (map Source df) (map f df)"
    by (induction df) auto
  then show ?thesis using assms by simp
qed

lemma split_stack_with_Source:
  assumes "split_stack sp col = Inr st"
  shows "with_Source k st = (if k < length col then tokens sp (col ! k) else [])"
proof -
  from assms have "st = concat (map (\<lambda>(i, c). map (Pair i) (tokens sp c)) (zip [0..<length col] col))"
    by (auto simp: split_stack_def split: if_splits)
  then show ?thesis by (simp add: with_Source_stack with_Source_index)
qed

lemma entries_with_Source:
  assumes src: "map Source df = [0..<length df]"
    and es: "make_entries df = Inr es"
  shows "filter (\<lambda>e. entry_Source e = k) es =
     (if k < length df
      then map (\<lambda>v. mk_entry (k, v))
        (List.product (List.product (List.product (List.product
           (tokens (str_split CHR '','') (TumorType (df ! k)))
           (tokens (str_split CHR '','') (TissueType (df ! k))))
           (tokens re_split_variant (Variant (df ! k))))
           [Tier (df ! k)]) [Gene (df ! k)])
      else [])"
proof -
  from es obtain tumor tissue variant where
    tu: "split_stack (str_split CHR '','') (map TumorType df) = Inr tumor" and
    ti: "split_stack (str_split CHR '','') (map TissueType df) = Inr tissue" and
    va: "split_stack re_split_variant (map Variant df) = Inr variant" and
    e: "es = map mk_entry (merge_on_Source (merge_on_Source (merge_on_Source
           (merge_on_Source tumor tissue) variant) (map (\<lambda>r. (Source r, Tier r)) df))
           (map (\<lambda>r. (Source r, Gene r)) df))"
    by (auto simp: make_entries_def Let_def split: sum.splits)
  let ?df2 = "merge_on_Source (merge_on_Source (merge_on_Source
           (merge_on_Source tumor tissue) variant) (map (\<lambda>r. (Source r, Tier r)) df))
           (map (\<lambda>r. (Source r, Gene r)) df)"
  have f: "filter (\<lambda>e. entry_Source e = k) (map mk_entry xs) = map (\<lambda>v. mk_entry (k, v)) (with_Source k xs)" for xs
    by (induction xs) (auto simp: mk_entry_def)
  have w: "with_Source k ?df2 =
      List.product (List.product (List.product (List.product (with_Source k tumor) (with_Source k tissue))
        (with_Source k variant)) (with_Source k (zip [0..<length df] (map Tier df))))
        (with_Source k (zip [0..<length df] (map Gene df)))"
    by (simp only: with_Source_merge keyed_by_index [OF src])
  show ?thesis
    unfolding e f w split_stack_with_Source [OF tu] split_stack_with_Source [OF ti]
      split_stack_with_Source [OF va]
    using with_Source_index [of k "map Tier df"] with_Source_index [of k "map Gene df"]
    by simp
qed


lemma clean_pmkb_df_rows:
  assumes "clean_pmkb_df raw = Inr df"
  shows "length df = length raw"
    and "map Source df = [0..<length df]"
    and "i < length raw \<Longrightarrow> \<exists>t. tier_astype_int (object_dtype (map raw_Tier raw)) (raw_Tier (raw ! i)) = Inr t \<and>
           df ! i = clean_row i (raw ! i) t"
proof -
  let ?obj = "object_dtype (map raw_Tier raw)"
  from assms obtain tiers where t: "astype_all ?obj (map raw_Tier raw) = Inr tiers"
    and df: "df = map (\<lambda>(i, r, t). clean_row i r t) (zip [0..<length raw] (zip raw tiers))"
    by (auto simp: clean_pmkb_df_def split: sum.splits)
  have a: "astype_all obj cs = Inr ts \<Longrightarrow>
      length ts = length cs \<and> (\<forall>i<length cs. tier_astype_int obj (cs ! i) = Inr (ts ! i))" for obj cs ts
  proof (induction cs arbitrary: ts)
    case Nil
    then show ?case by simp
  next
    case (Cons c cs)
    then show ?case by (auto split: sum.splits simp: nth_Cons split: nat.splits)
  qed
  from a [OF t] have len: "length tiers = length raw"
    and ti: "\<And>i. i < length raw \<Longrightarrow> tier_astype_int ?obj (raw_Tier (raw ! i)) = Inr (tiers ! i)"
    by auto
  show l: "length df = length raw" by (simp add: df len)
  have n: "i < length raw \<Longrightarrow> df ! i = clean_row i (raw ! i) (tiers ! i)" for i
    by (simp add: df len)
  show "map Source df = [0..<length df]"
    by (rule nth_equalityI) (simp_all add: l n clean_row_def)
  show "i < length raw \<Longrightarrow> \<exists>t. tier_astype_int (object_dtype (map raw_Tier raw)) (raw_Tier (raw ! i)) = Inr t \<and>
           df ! i = clean_row i (raw ! i) t"
    using ti n by blast
qed

lemma row_at_Source:
  assumes "map Source df = [0..<length df]" and "r \<in> set df"
  shows "Source r < length df \<and> df ! Source r = r"
proof -
  from assms(2) obtain i where i: "i < length df" and r: "df ! i = r"
    by (auto simp: in_set_conv_nth)
  have "map Source df ! i = i" using assms(1) i by simp
  then have "Source r = i" using i r by simp
  then show ?thesis using i r by simp
qed

lemmas eval_defs =
  clean_pmkb_df_def object_dtype_def tier_astype_int_def int64_def trunc_def clean_row_def
  collapse_citations_def fillna_str_def
  strip_def is_space_def is_upper_def make_entries_def split_stack_def tokens_def
  merge_on_Source_def mk_entry_def re_split_variant.simps rx_match_def variant_pat_def

lemma example_clean: "clean_pmkb_df example_sheet = Inr example_df"
  by (simp add: example_sheet_def example_df_def eval_defs upt_rec)

lemma example_entries: "make_entries example_df = Inr example_entries_df"
  by (simp add: example_df_def example_entries_df_def eval_defs upt_rec)

lemma entries_of_row:
  assumes "clean_pmkb_df raw = Inr df" and "make_entries df = Inr es" and "r \<in> set df"
  shows "filter (\<lambda>e. entry_Source e = Source r) es =
     map (\<lambda>v. mk_entry (Source r, v))
        (List.product (List.product (List.product (List.product
           (tokens (str_split CHR '','') (TumorType r))
           (tokens (str_split CHR '','') (TissueType r)))
           (tokens re_split_variant (Variant r)))
           [Tier r]) [Gene r])"
proof -
  note src = clean_pmkb_df_rows(2) [OF assms(1)]
  from row_at_Source [OF src assms(3)] have k: "Source r < length df" and r: "df ! Source r = r"
    by auto
  show ?thesis using entries_with_Source [OF src assms(2), of "Source r"] k r by simp
qed

subsection \<open>Cross-expansion\<close>

text \<open>
  C1. For every fact of the cleaned frame, the entries that carry its \<open>Source\<close> number
  as many as the product of the lengths of its three token lists (tumor types and tissue
  types split at every comma, variants split by the pattern, each token stripped), and they
  are exactly the combinations of one token of each list, with the fact's tier and gene:
  the inner joins on \<open>Source\<close> form the full cross-product, whether the lists are of
  equal length or not.
\<close>

theorem cross_expansion:
  assumes "clean_pmkb_df raw = Inr df" and "make_entries df = Inr es" and "r \<in> set df"
  shows "length (filter (\<lambda>e. entry_Source e = Source r) es) =
           length (tokens (str_split CHR '','') (TumorType r)) *
           length (tokens (str_split CHR '','') (TissueType r)) *
           length (tokens re_split_variant (Variant r)) \<and>
         set (filter (\<lambda>e. entry_Source e = Source r) es) =
           {\<lparr>entry_Source = Source r, entry_TumorType = tu, entry_TissueType = ti,
             entry_Variant = v, entry_Tier = Tier r, entry_Gene = Gene r\<rparr> | tu ti v.
            tu \<in> set (tokens (str_split CHR '','') (TumorType r)) \<and>
            ti \<in> set (tokens (str_split CHR '','') (TissueType r)) \<and>
            v \<in> set (tokens re_split_variant (Variant r))}"
proof
  show "length (filter (\<lambda>e. entry_Source e = Source r) es) =
           length (tokens (str_split CHR '','') (TumorType r)) *
           length (tokens (str_split CHR '','') (TissueType r)) *
           length (tokens re_split_variant (Variant r))"
    unfolding entries_of_row [OF assms] by simp
  show "set (filter (\<lambda>e. entry_Source e = Source r) es) =
           {\<lparr>entry_Source = Source r, entry_TumorType = tu, entry_TissueType = ti,
             entry_Variant = v, entry_Tier = Tier r, entry_Gene = Gene r\<rparr> | tu ti v.
            tu \<in> set (tokens (str_split CHR '','') (TumorType r)) \<and>
            ti \<in> set (tokens (str_split CHR '','') (TissueType r)) \<and>
            v \<in> set (tokens re_split_variant (Variant r))}"
    unfolding entries_of_row [OF assms] by (auto simp: mk_entry_def image_iff)
qed

theorem cross_expansion_witness:
  "clean_pmkb_df example_sheet = Inr example_df \<and>
   make_entries example_df = Inr example_entries_df \<and>
   length (filter (\<lambda>e. entry_Source e = 0) example_entries_df) = 2 * 1 * 1 \<and>
   length (filter (\<lambda>e. entry_Source e = 1) example_entries_df) = 1 * 2 * 2"
proof -
  have r0: "example_df ! 0 \<in> set example_df" and r1: "example_df ! 1 \<in> set example_df"
    by (simp_all add: example_df_def)
  have t: "tokens (str_split CHR '','') (Some ''Lung Cancer, Glioma'') = [''Lung Cancer'', ''Glioma'']"
      "tokens (str_split CHR '','') (Some ''Lung'') = [''Lung'']"
      "tokens re_split_variant (Some ''L858R'') = [''L858R'']"
      "tokens (str_split CHR '','') (Some ''Melanoma'') = [''Melanoma'']"
      "tokens (str_split CHR '','') (Some ''Skin, Eye'') = [''Skin'', ''Eye'']"
      "tokens re_split_variant (Some ''V600E, V600K'') = [''V600E'', ''V600K'']"
    by (simp_all add: eval_defs)
  from cross_expansion [OF example_clean example_entries r0]
  have c0: "length (filter (\<lambda>e. entry_Source e = 0) example_entries_df) = 2 * 1 * 1"
    by (simp add: example_df_def t)
  from cross_expansion [OF example_clean example_entries r1]
  have c1: "length (filter (\<lambda>e. entry_Source e = 1) example_entries_df) = 1 * 2 * 2"
    by (simp add: example_df_def t)
  show ?thesis using example_clean example_entries c0 c1 by simp
qed

subsection \<open>Gene and tier of an entry\<close>

lemma mk_entry_fields:
  assumes "x \<in> set (map (\<lambda>v. mk_entry (k, v)) (List.product (List.product ps [t]) [g]))"
  shows "entry_Source x = k \<and> entry_Tier x = t \<and> entry_Gene x = g"
  using assms by (auto simp: mk_entry_def)

text \<open>
  C9. Every entry carries the gene of the sheet's row at its \<open>Source\<close> and the integer
  that row's tier converts to; they are the gene and the tier of the cleaned frame's row
  with that \<open>Source\<close>.
\<close>

theorem copy_invariant:
  assumes "clean_pmkb_df raw = Inr df" and "make_entries df = Inr es" and "e \<in> set es"
  shows "entry_Source e < length raw \<and>
         entry_Gene e = raw_Gene (raw ! entry_Source e) \<and>
         tier_astype_int (object_dtype (map raw_Tier raw)) (raw_Tier (raw ! entry_Source e)) =
           Inr (entry_Tier e) \<and>
         (\<forall>r \<in> set df. Source r = entry_Source e \<longrightarrow>
            entry_Gene e = Gene r \<and> entry_Tier e = Tier r)"
proof -
  note src = clean_pmkb_df_rows(2) [OF assms(1)]
  note len = clean_pmkb_df_rows(1) [OF assms(1)]
  let ?k = "entry_Source e"
  from assms(3) have m: "e \<in> set (filter (\<lambda>x. entry_Source x = ?k) es)" by simp
  have k: "?k < length df"
  proof (rule ccontr)
    assume "\<not> ?k < length df"
    then have "filter (\<lambda>x. entry_Source x = ?k) es = []"
      using entries_with_Source [OF src assms(2), of ?k] by simp
    with m show False by simp
  qed
  from m have "e \<in> set (if ?k < length df
      then map (\<lambda>v. mk_entry (?k, v))
        (List.product (List.product (List.product (List.product
           (tokens (str_split CHR '','') (TumorType (df ! ?k)))
           (tokens (str_split CHR '','') (TissueType (df ! ?k))))
           (tokens re_split_variant (Variant (df ! ?k))))
           [Tier (df ! ?k)]) [Gene (df ! ?k)])
      else [])"
    unfolding entries_with_Source [OF src assms(2), of ?k] .
  with k have "e \<in> set (map (\<lambda>v. mk_entry (?k, v))
        (List.product (List.product (List.product (List.product
           (tokens (str_split CHR '','') (TumorType (df ! ?k)))
           (tokens (str_split CHR '','') (TissueType (df ! ?k))))
           (tokens re_split_variant (Variant (df ! ?k))))
           [Tier (df ! ?k)]) [Gene (df ! ?k)]))"
    by (simp only: if_True)
  from mk_entry_fields [OF this]
  have g: "entry_Gene e = Gene (df ! ?k)" and t: "entry_Tier e = Tier (df ! ?k)"
    by simp_all
  from k len obtain tt where
    tt: "tier_astype_int (object_dtype (map raw_Tier raw)) (raw_Tier (raw ! ?k)) = Inr tt"
    and d: "df ! ?k = clean_row ?k (raw ! ?k) tt"
    using clean_pmkb_df_rows(3) [OF assms(1), of ?k] by auto
  have "\<forall>r \<in> set df. Source r = ?k \<longrightarrow> entry_Gene e = Gene r \<and> entry_Tier e = Tier r"
  proof (intro ballI impI)
    fix r assume "r \<in> set df" and s: "Source r = ?k"
    from row_at_Source [OF src this(1)] have "df ! Source r = r" by simp
    with s have "df ! ?k = r" by simp
    with g t show "entry_Gene e = Gene r \<and> entry_Tier e = Tier r" by simp
  qed
  then show ?thesis using k len g t tt d by (simp add: clean_row_def)
qed

theorem copy_invariant_witness:
  "clean_pmkb_df example_sheet = Inr example_df \<and>
   make_entries example_df = Inr example_entries_df \<and>
   entry_Source (example_entries_df ! 1) = 0 \<and>
   entry_Gene (example_entries_df ! 1) = raw_Gene (example_sheet ! 0) \<and>
   entry_Gene (example_entries_df ! 1) = Some ''EGFR'' \<and>
   tier_astype_int (object_dtype (map raw_Tier example_sheet)) (raw_Tier (example_sheet ! 0)) =
     Inr (entry_Tier (example_entries_df ! 1)) \<and>
   entry_Tier (example_entries_df ! 1) = 1"
proof -
  have e: "example_entries_df ! 1 \<in> set example_entries_df"
    by (simp add: example_entries_df_def)
  from copy_invariant [OF example_clean example_entries e]
  show ?thesis
    using example_clean example_entries
    by (simp add: example_entries_df_def example_sheet_def tier_astype_int_def object_dtype_def
        int64_def trunc_def)
qed

subsection \<open>Citation collapsing\<close>

lemma strip_all_space:
  assumes "\<forall>c\<in>set w. is_space c"
  shows "strip w = []"
proof -
  from assms have e: "dropWhile is_space w = []" by (simp add: dropWhile_eq_Nil_conv)
  show ?thesis unfolding strip_def e by simp
qed

lemma strip_core:
  assumes "J \<noteq> []" and "\<not> is_space (hd J)" and "\<not> is_space (last J)"
    and "\<forall>c\<in>set w1. is_space c" and "\<forall>c\<in>set w2. is_space c"
  shows "strip (w1 @ J @ w2) = J"
proof -
  from assms(1,2) have d: "dropWhile is_space J = J" by (cases J) auto
  have "dropWhile is_space (w1 @ J @ w2) = J @ w2"
    using assms(1,2,4) by (cases J) (auto simp: dropWhile_append)
  moreover have "dropWhile is_space (rev (J @ w2)) = rev J"
  proof -
    have "rev (J @ w2) = rev w2 @ rev J" by simp
    moreover have "\<forall>c\<in>set (rev w2). is_space c" using assms(5) by simp
    moreover have "dropWhile is_space (rev J) = rev J"
      using assms(1,3) by (cases "rev J") (auto simp: last_rev hd_rev)
    ultimately show ?thesis by (simp add: dropWhile_append)
  qed
  ultimately show ?thesis by (simp add: strip_def)
qed

lemma str_join_Cons: "ys \<noteq> [] \<Longrightarrow> str_join s (x # ys) = x @ s @ str_join s ys"
  by (cases ys) auto

lemma str_join_append:
  "xs \<noteq> [] \<Longrightarrow> ys \<noteq> [] \<Longrightarrow> str_join s (xs @ ys) = str_join s xs @ s @ str_join s ys"
proof (induction xs)
  case Nil
  then show ?case by simp
next
  case (Cons x xs)
  show ?case
  proof (cases "xs = []")
    case True
    then show ?thesis using Cons.prems by (simp add: str_join_Cons)
  next
    case False
    then show ?thesis using Cons by (simp add: str_join_Cons)
  qed
qed

lemma str_join_blank: "\<forall>c\<in>set (str_join [n] (replicate k [])). c = n"
proof (induction k)
  case 0
  then show ?case by simp
next
  case (Suc k)
  then show ?case by (cases k) auto
qed

lemma str_join_replicate: "str_join [n] (replicate (Suc k) []) = replicate k n"
proof (induction k)
  case 0
  then show ?case by simp
next
  case (Suc k)
  have "str_join [n] (replicate (Suc (Suc k)) []) = [] @ [n] @ str_join [n] (replicate (Suc k) [])"
    by simp
  then show ?case using Suc by simp
qed

lemma str_join_nonempty_hd: "xs \<noteq> [] \<Longrightarrow> hd xs \<noteq> [] \<Longrightarrow> str_join s xs \<noteq> []"
proof (cases xs)
  case Nil
  then show "xs \<noteq> [] \<Longrightarrow> hd xs \<noteq> [] \<Longrightarrow> str_join s xs \<noteq> []" by simp
next
  case (Cons x ys)
  then show "xs \<noteq> [] \<Longrightarrow> hd xs \<noteq> [] \<Longrightarrow> str_join s xs \<noteq> []" by (cases ys) auto
qed

lemma hd_str_join: "xs \<noteq> [] \<Longrightarrow> hd xs \<noteq> [] \<Longrightarrow> hd (str_join s xs) = hd (hd xs)"
proof (cases xs)
  case Nil
  then show "xs \<noteq> [] \<Longrightarrow> hd xs \<noteq> [] \<Longrightarrow> hd (str_join s xs) = hd (hd xs)" by simp
next
  case (Cons x ys)
  then show "xs \<noteq> [] \<Longrightarrow> hd xs \<noteq> [] \<Longrightarrow> hd (str_join s xs) = hd (hd xs)" by (cases ys) auto
qed

lemma str_join_nonempty_last: "xs \<noteq> [] \<Longrightarrow> last xs \<noteq> [] \<Longrightarrow> str_join s xs \<noteq> []"
proof (induction xs)
  case Nil
  then show ?case by simp
next
  case (Cons x ys)
  then show ?case by (cases ys) auto
qed

lemma last_str_join: "xs \<noteq> [] \<Longrightarrow> last xs \<noteq> [] \<Longrightarrow> last (str_join s xs) = last (last xs)"
proof (induction xs)
  case Nil
  then show ?case by simp
next
  case (Cons x ys)
  show ?case
  proof (cases "ys = []")
    case True
    then show ?thesis by simp
  next
    case False
    with Cons.prems have l: "last ys \<noteq> []" by simp
    from str_join_nonempty_last [OF False l] have "str_join s ys \<noteq> []" .
    then show ?thesis using Cons.IH [OF False l] False by (simp add: str_join_Cons)
  qed
qed

lemma nl_space: "is_space (CHR 0x0A)" by (simp add: is_space_def)

lemma fillna_blank: "map fillna_str cs = replicate (length cs) []" if "\<forall>c\<in>set cs. fillna_str c = []"
  using that by (induction cs) auto

lemma join_tidy:
  assumes "xs \<noteq> []" "\<forall>x\<in>set xs. tidy x"
  shows "str_join s xs \<noteq> [] \<and> \<not> is_space (hd (str_join s xs)) \<and> \<not> is_space (last (str_join s xs))"
proof -
  from assms have h: "hd xs \<noteq> []" "last xs \<noteq> []" and t: "tidy (hd xs)" "tidy (last xs)"
    by (auto simp: tidy_def)
  show ?thesis
    using str_join_nonempty_hd [OF assms(1) h(1)] hd_str_join [OF assms(1) h(1)]
      last_str_join [OF assms(1) h(2)] t by (simp add: tidy_def)
qed

lemma join_blank_before:
  "ys \<noteq> [] \<Longrightarrow> str_join [n] (replicate k [] @ ys) = replicate k n @ str_join [n] ys"
  by (induction k) (simp_all add: str_join_Cons)

lemma join_blank_after:
  "ys \<noteq> [] \<Longrightarrow> str_join [n] (ys @ replicate k []) = str_join [n] ys @ replicate k n"
proof (cases k)
  case 0
  then show ?thesis by simp
next
  case (Suc j)
  assume "ys \<noteq> []"
  then have "str_join [n] (ys @ replicate (Suc j) []) = str_join [n] ys @ [n] @ str_join [n] (replicate (Suc j) [])"
    by (intro str_join_append) simp_all
  then have "str_join [n] (ys @ replicate (Suc j) []) = str_join [n] ys @ [n] @ replicate j n"
    by (simp only: str_join_replicate)
  then show ?thesis by (simp add: Suc replicate_app_Cons_same)
qed

lemma fillna_cells:
  assumes "\<forall>c\<in>set pre. fillna_str c = []" and "\<forall>c\<in>set post. fillna_str c = []"
  shows "map fillna_str (pre @ map Some xs @ post) =
      replicate (length pre) [] @ xs @ replicate (length post) []"
proof -
  have "map fillna_str (map Some xs) = xs"
    by (induction xs) (simp_all add: fillna_str_def)
  then show ?thesis
    by (simp only: map_append fillna_blank [OF assms(1)] fillna_blank [OF assms(2)])
qed

lemma str_join_blank_space:
  assumes "is_space n"
  shows "\<forall>c\<in>set (str_join [n] (replicate k [])). is_space c"
  using str_join_blank [of n k] assms by auto

lemma collapse_blank:
  assumes "\<forall>c\<in>set cells. fillna_str c = []"
  shows "collapse_citations cells = []"
proof -
  have "strip (str_join [CHR 0x0A] (replicate (length cells) [])) = []"
    by (rule strip_all_space) (rule str_join_blank_space [OF nl_space])
  then show ?thesis
    unfolding collapse_citations_def fillna_blank [OF assms] .
qed

lemma citations_outer_blanks:
  assumes "\<forall>c\<in>set pre. fillna_str c = []" and "\<forall>c\<in>set post. fillna_str c = []"
    and "\<forall>x\<in>set xs. tidy x"
  shows "collapse_citations (pre @ map Some xs @ post) = str_join [CHR 0x0A] xs"
proof -
  let ?n = "CHR 0x0A"
  note m = fillna_cells [OF assms(1,2), of xs]
  show ?thesis
  proof (cases "xs = []")
    case True
    have "\<forall>c\<in>set (pre @ post). fillna_str c = []" using assms(1,2) by auto
    from collapse_blank [OF this] show ?thesis unfolding True by simp
  next
    case False
    then have ne: "xs @ replicate (length post) [] \<noteq> []" by simp
    have j: "str_join [?n] (map fillna_str (pre @ map Some xs @ post)) =
        replicate (length pre) ?n @ str_join [?n] xs @ replicate (length post) ?n"
      unfolding m join_blank_before [OF ne] join_blank_after [OF False] ..
    have w1: "\<forall>c\<in>set (replicate (length pre) ?n). is_space c"
      and w2: "\<forall>c\<in>set (replicate (length post) ?n). is_space c"
      using nl_space by simp_all
    from join_tidy [OF False assms(3), of "[?n]"]
    have t: "str_join [?n] xs \<noteq> []" "\<not> is_space (hd (str_join [?n] xs))"
      "\<not> is_space (last (str_join [?n] xs))" by blast+
    show ?thesis
      unfolding collapse_citations_def j by (rule strip_core [OF t w1 w2])
  qed
qed

lemma citations_inner_blanks:
  assumes "xs \<noteq> []" and "ys \<noteq> []" and "\<forall>x\<in>set xs. tidy x" and "\<forall>y\<in>set ys. tidy y"
    and "\<forall>c\<in>set mid. fillna_str c = []"
  shows "collapse_citations (map Some xs @ mid @ map Some ys) =
         str_join [CHR 0x0A] xs @ replicate (Suc (length mid)) (CHR 0x0A) @ str_join [CHR 0x0A] ys"
proof -
  let ?n = "CHR 0x0A"
  have m: "map fillna_str (map Some xs @ mid @ map Some ys) = xs @ replicate (length mid) [] @ ys"
    using fillna_blank [OF assms(5)] by (simp add: fillna_str_def comp_def)
  have ne: "replicate (length mid) [] @ ys \<noteq> []" using assms(2) by simp
  have j: "str_join [?n] (xs @ replicate (length mid) [] @ ys) =
      str_join [?n] xs @ replicate (Suc (length mid)) ?n @ str_join [?n] ys"
    unfolding str_join_append [OF assms(1) ne] join_blank_before [OF assms(2)]
    by (simp add: replicate_app_Cons_same)
  let ?J = "str_join [?n] xs @ replicate (Suc (length mid)) ?n @ str_join [?n] ys"
  from join_tidy [OF assms(1,3), of "[?n]"] join_tidy [OF assms(2,4), of "[?n]"]
  have "?J \<noteq> []" "\<not> is_space (hd ?J)" "\<not> is_space (last ?J)" by simp_all
  from strip_core [OF this, of "[]" "[]"] show ?thesis
    unfolding collapse_citations_def m j by simp
qed

text \<open>
  C2, as the code has it. The cells from the first citation column on are joined with line
  feeds, a blank cell counting as the empty string, and the joined text is stripped. So
  blank cells before the first and after the last citation leave nothing behind, when the
  citations themselves neither begin nor end with whitespace; but every blank cell between
  two citations leaves one more line feed between them.
\<close>

theorem citation_collapsing:
  assumes "\<forall>x\<in>set xs. tidy x" and "\<forall>y\<in>set ys. tidy y"
    and "\<forall>c\<in>set pre. fillna_str c = []" and "\<forall>c\<in>set mid. fillna_str c = []"
    and "\<forall>c\<in>set post. fillna_str c = []"
  shows "collapse_citations (pre @ map Some xs @ post) = str_join [CHR 0x0A] xs \<and>
         (xs \<noteq> [] \<and> ys \<noteq> [] \<longrightarrow>
            collapse_citations (map Some xs @ mid @ map Some ys) =
            str_join [CHR 0x0A] xs @ replicate (Suc (length mid)) (CHR 0x0A) @
            str_join [CHR 0x0A] ys)"
  using citations_outer_blanks [OF assms(3,5,1)] citations_inner_blanks [OF _ _ assms(1,2,4)]
  by simp

theorem citation_collapsing_witness:
  "collapse_citations ([None] @ map Some [''A'', ''B''] @ [None, Some []]) =
     ''A'' @ [CHR 0x0A] @ ''B'' \<and>
   collapse_citations (map Some [''A''] @ [None] @ map Some [''B'']) =
     ''A'' @ [CHR 0x0A, CHR 0x0A] @ ''B''"
proof -
  have t: "\<forall>x\<in>set [''A'', ''B'']. tidy x" "\<forall>x\<in>set [''A'']. tidy x" "\<forall>y\<in>set [''B'']. tidy y"
    by (simp_all add: tidy_def is_space_def)
  have b: "\<forall>c\<in>set [None]. fillna_str c = []" "\<forall>c\<in>set [None, Some []]. fillna_str c = []"
    by (simp_all add: fillna_str_def)
  from citation_collapsing [OF t(1) t(3) b(1) b(1) b(2)]
    citation_collapsing [OF t(2) t(3) b(1) b(1) b(1)]
  show ?thesis by simp
qed

text \<open>The cells \<open>["A", "", "B"]\<close> collapse to \<open>A\<close>, an empty line, \<open>B\<close>: the empty cell is
  not dropped.\<close>

theorem citation_collapsing_counterexample:
  "collapse_citations [Some ''A'', Some [], Some ''B''] = ''A'' @ [CHR 0x0A, CHR 0x0A] @ ''B''"
  by (simp add: collapse_citations_def fillna_str_def strip_def is_space_def)

subsection \<open>The variant splitter and the rule\<close>

lemma spec_split_nonempty: "spec_variant_split s \<noteq> []"
  by (induction s) (auto split: list.splits)

lemma comma_splits_after: "comma_splits r \<longleftrightarrow> after_comma r \<noteq> None"
proof (cases "dropWhile is_space r")
  case Nil
  show ?thesis unfolding comma_splits_def after_comma_def Nil by simp
next
  case (Cons u t)
  show ?thesis unfolding comma_splits_def after_comma_def Cons by simp
qed

lemma after_comma_Some: "after_comma r = Some t \<Longrightarrow> t = dropWhile is_space r"
proof (cases "dropWhile is_space r")
  case Nil
  show "after_comma r = Some t \<Longrightarrow> t = dropWhile is_space r"
    unfolding after_comma_def Nil by simp
next
  case (Cons u v)
  show "after_comma r = Some t \<Longrightarrow> t = dropWhile is_space r"
    unfolding after_comma_def Cons by (simp split: if_splits)
qed

lemma rx_match_comma: "rx_match variant_pat (CHR '','' # r) = after_comma r"
  unfolding rx_match_variant_pat using space_not_comma [of "CHR '',''"] by auto

lemma rx_match_space: "is_space c \<Longrightarrow> rx_match variant_pat (c # cs) = rx_match variant_pat cs"
  unfolding rx_match_variant_pat by simp

lemma rx_match_other:
  "\<not> is_space c \<Longrightarrow> c \<noteq> CHR '','' \<Longrightarrow> rx_match variant_pat (c # cs) = None"
  unfolding rx_match_variant_pat by simp

lemma rx_match_Nil: "rx_match variant_pat [] = None"
  unfolding rx_match_variant_pat by simp

lemma spec_split_space_prefix:
  assumes "\<forall>c\<in>set w. is_space c"
  shows "spec_variant_split (w @ t) = (w @ hd (spec_variant_split t)) # tl (spec_variant_split t)"
  using assms
proof (induction w)
  case Nil
  then show ?case using spec_split_nonempty [of t] by simp
next
  case (Cons c w)
  then have "c \<noteq> CHR '',''" using space_not_comma by auto
  then show ?case using Cons by simp
qed


lemma strip_prepend_space:
  assumes "\<forall>c\<in>set w. is_space c"
  shows "strip (w @ a) = strip a"
proof -
  from assms have "dropWhile is_space (w @ a) = dropWhile is_space a"
    by (induction w) simp_all
  then show ?thesis by (simp add: strip_def)
qed

lemma strip_append_space:
  assumes "\<forall>c\<in>set w. is_space c"
  shows "strip (a @ w) = strip a"
proof (cases "dropWhile is_space a")
  case Nil
  then have "\<forall>c\<in>set (a @ w). is_space c" using assms by (auto simp: dropWhile_eq_Nil_conv)
  then have "strip (a @ w) = []" by (rule strip_all_space)
  moreover have "strip a = []" unfolding strip_def Nil by simp
  ultimately show ?thesis by simp
next
  case (Cons x xs)
  then have ex: "\<exists>y\<in>set a. \<not> is_space y"
    by (metis dropWhile_eq_Nil_conv list.distinct(1))
  then obtain y where "y \<in> set a" and "\<not> is_space y" by auto
  then have d: "dropWhile is_space (a @ w) = dropWhile is_space a @ w"
    by (rule dropWhile_append1)
  have r: "\<forall>c\<in>set (rev w). is_space c" using assms by simp
  have "dropWhile is_space (rev (dropWhile is_space a @ w)) =
        dropWhile is_space (rev w @ rev (dropWhile is_space a))" by simp
  also have "\<dots> = dropWhile is_space (rev (dropWhile is_space a))"
    using r by (intro dropWhile_append2) simp
  finally show ?thesis unfolding strip_def d by simp
qed

lemma spec_strip_prefix:
  assumes "\<forall>c\<in>set w. is_space c"
  shows "map strip (spec_variant_split (w @ t)) = map strip (spec_variant_split t)"
proof -
  obtain h ts where ht: "spec_variant_split t = h # ts"
    using spec_split_nonempty [of t] by (cases "spec_variant_split t") auto
  show ?thesis
    unfolding spec_split_space_prefix [OF assms] ht
    by (simp add: strip_prepend_space [OF assms])
qed

lemma rx_search_Cons_match:
  "rx_match variant_pat s = Some t \<Longrightarrow> rx_search variant_pat s = Some ([], t)"
  by (cases s) (simp_all add: rx_match_Nil)

lemma search_split:
  "rx_search variant_pat s = Some (a, t) \<Longrightarrow>
     \<exists>w ts. spec_variant_split s = (a @ w) # ts \<and> (\<forall>x\<in>set w. is_space x) \<and>
             map strip ts = map strip (spec_variant_split t)"
proof (induction s arbitrary: a)
  case Nil
  then show ?case by (simp add: rx_match_Nil)
next
  case (Cons c cs)
  show ?case
  proof (cases "rx_match variant_pat (c # cs)")
    case None
    with Cons.prems obtain a' where s: "rx_search variant_pat cs = Some (a', t)" and a: "a = c # a'"
      by auto
    from Cons.IH [OF s] obtain w ts where
      sp: "spec_variant_split cs = (a' @ w) # ts" and w: "\<forall>x\<in>set w. is_space x"
      and ts: "map strip ts = map strip (spec_variant_split t)" by blast
    have "\<not> (c = CHR '','' \<and> comma_splits cs)"
      using None rx_match_comma [of cs] comma_splits_after [of cs] by auto
    then have "spec_variant_split (c # cs) = (a @ w) # ts" using sp a by simp
    with w ts show ?thesis by blast
  next
    case (Some u)
    with Cons.prems have a: "a = []" and u: "u = t" by simp_all
    show ?thesis
    proof (cases "c = CHR '',''")
      case True
      with Some u have ac: "after_comma cs = Some t" by (simp add: rx_match_comma)
      then have cs: "comma_splits cs" by (simp add: comma_splits_after)
      from after_comma_Some [OF ac] have "cs = takeWhile is_space cs @ t" by simp
      then have "map strip (spec_variant_split cs) = map strip (spec_variant_split t)"
        using spec_strip_prefix [of "takeWhile is_space cs" t]
        by (metis set_takeWhileD)
      moreover have "spec_variant_split (c # cs) = (a @ []) # spec_variant_split cs"
        using True cs a by simp
      ultimately show ?thesis by fastforce
    next
      case False
      have sp: "is_space c"
      proof (rule ccontr)
        assume "\<not> is_space c"
        from rx_match_other [OF this False] Some show False by simp
      qed
      with Some u have "rx_match variant_pat cs = Some t" by (simp add: rx_match_space)
      then have "rx_search variant_pat cs = Some ([], t)" by (rule rx_search_Cons_match)
      from Cons.IH [OF this] obtain w ts where
        s: "spec_variant_split cs = w # ts" and w: "\<forall>x\<in>set w. is_space x"
        and ts: "map strip ts = map strip (spec_variant_split t)" by auto
      have "spec_variant_split (c # cs) = (a @ (c # w)) # ts" using False s a by simp
      moreover have "\<forall>x\<in>set (c # w). is_space x" using sp w by simp
      ultimately show ?thesis using ts by blast
    qed
  qed
qed

lemma search_none:
  "rx_search variant_pat s = None \<Longrightarrow> spec_variant_split s = [s]"
proof (induction s)
  case Nil
  then show ?case by simp
next
  case (Cons c cs)
  from Cons.prems have m: "rx_match variant_pat (c # cs) = None"
    and s: "rx_search variant_pat cs = None"
    by (auto split: option.splits)
  have "\<not> (c = CHR '','' \<and> comma_splits cs)"
    using m rx_match_comma [of cs] comma_splits_after [of cs] by auto
  then show ?case using Cons.IH [OF s] by simp
qed

lemma variant_split_refines:
  "map strip (re_split_variant s) = map strip (spec_variant_split s)"
proof (induction s rule: re_split_variant.induct)
  case (1 s)
  show ?case
  proof (cases "rx_search variant_pat s")
    case None
    then show ?thesis by (simp add: re_split_variant.simps [of s] search_none)
  next
    case (Some p)
    obtain a t where p: "p = (a, t)" by (cases p)
    from search_split [OF Some [unfolded p]] obtain w ts where
      sp: "spec_variant_split s = (a @ w) # ts" and w: "\<forall>x\<in>set w. is_space x"
      and ts: "map strip ts = map strip (spec_variant_split t)" by blast
    from "1.IH" [OF Some [unfolded p] refl]
    have "map strip (re_split_variant t) = map strip (spec_variant_split t)" .
    then show ?thesis
      using Some p sp ts strip_append_space [OF w, of a]
      by (simp add: re_split_variant.simps [of s])
  qed
qed

text \<open>
  C3, as the code has it. The tokens of a variants cell are those of the rule in the
  specification's words, stripped: the text is cut at a comma exactly when optional
  whitespace and then an uppercase letter \<open>A\<close> to \<open>Z\<close> follow it. The text after the comma
  of \<open>p.Arg100Gln, p.Arg100His\<close> begins with a lowercase \<open>p\<close>, so that cell is one token,
  as is \<open>exon 19 deletion, in-frame\<close>; \<open>L858R, T790M\<close> gives two tokens.
\<close>

theorem variant_splitting:
  "tokens re_split_variant (Some s) = map strip (spec_variant_split s) \<and>
   tokens re_split_variant (Some ''p.Arg100Gln, p.Arg100His'') = [''p.Arg100Gln, p.Arg100His''] \<and>
   tokens re_split_variant (Some ''exon 19 deletion, in-frame'') = [''exon 19 deletion, in-frame''] \<and>
   tokens re_split_variant (Some ''L858R, T790M'') = [''L858R'', ''T790M'']"
proof -
  have "tokens re_split_variant (Some s) = map strip (spec_variant_split s)"
    by (simp add: tokens_def variant_split_refines)
  moreover have "tokens re_split_variant (Some ''p.Arg100Gln, p.Arg100His'') = [''p.Arg100Gln, p.Arg100His'']"
    by (simp add: eval_defs)
  moreover have "tokens re_split_variant (Some ''exon 19 deletion, in-frame'') = [''exon 19 deletion, in-frame'']"
    by (simp add: eval_defs)
  moreover have "tokens re_split_variant (Some ''L858R, T790M'') = [''L858R'', ''T790M'']"
    by (simp add: eval_defs)
  ultimately show ?thesis by blast
qed

theorem variant_splitting_witness:
  "tokens re_split_variant (Some ''V600E ,V600K, any'') = [''V600E'', ''V600K, any''] \<and>
   map strip (spec_variant_split ''V600E ,V600K, any'') = [''V600E'', ''V600K, any'']"
proof -
  have "map strip (spec_variant_split ''V600E ,V600K, any'') = [''V600E'', ''V600K, any'']"
    by (simp add: comma_splits_def strip_def is_space_def is_upper_def)
  with variant_splitting [of "''V600E ,V600K, any''"] show ?thesis by simp
qed

text \<open>The pattern does not split \<open>p.Arg100Gln, p.Arg100His\<close>.\<close>

theorem variant_splitting_counterexample:
  "re_split_variant ''p.Arg100Gln, p.Arg100His'' = [''p.Arg100Gln, p.Arg100His'']"
  by (simp add: eval_defs)

subsection \<open>Facts with blank cells\<close>

lemma str_split_nonempty: "str_split d s \<noteq> []"
  by (induction s) (auto split: list.splits)

lemma re_split_variant_nonempty: "re_split_variant s \<noteq> []"
  by (subst re_split_variant.simps) (simp split: option.splits prod.splits)

lemma tokens_empty_iff:
  assumes "\<And>s. f s \<noteq> []"
  shows "tokens f c = [] \<longleftrightarrow> c = None"
  using assms by (cases c) (simp_all add: tokens_def)

lemma product_empty_iff: "List.product xs ys = [] \<longleftrightarrow> xs = [] \<or> ys = []"
  by (induction xs) auto

lemma str_split_no_sep: "d \<notin> set s \<Longrightarrow> str_split d s = [s]"
  by (induction s) auto

lemma spec_split_no_comma: "CHR '','' \<notin> set s \<Longrightarrow> spec_variant_split s = [s]"
  by (induction s) auto

lemma blank_text_tokens:
  assumes "\<forall>c\<in>set s. is_space c"
  shows "tokens (str_split CHR '','') (Some s) = [[]] \<and> tokens re_split_variant (Some s) = [[]]"
proof -
  from assms have n: "CHR '','' \<notin> set s" using space_not_comma by auto
  have e: "strip s = []" using assms by (rule strip_all_space)
  have "map strip (re_split_variant s) = [[]]"
    unfolding variant_split_refines spec_split_no_comma [OF n] using e by simp
  then show ?thesis by (simp add: tokens_def str_split_no_sep [OF n] e)
qed

text \<open>
  C4, as the code has it. A fact of the cleaned frame has an entry exactly when its tumor
  type, tissue type and variant cells all hold text: a blank cell splits to NaN, \<open>stack\<close>
  drops it and the inner joins drop the fact. A cell that holds only whitespace (or empty
  text) is text, and gives the single token that is the empty string.
\<close>

theorem entries_of_blank_cells:
  assumes "clean_pmkb_df raw = Inr df" and "make_entries df = Inr es" and "r \<in> set df"
  shows "(filter (\<lambda>e. entry_Source e = Source r) es \<noteq> [] \<longleftrightarrow>
            TumorType r \<noteq> None \<and> TissueType r \<noteq> None \<and> Variant r \<noteq> None) \<and>
         ((\<forall>c\<in>set s. is_space c) \<longrightarrow>
            tokens (str_split CHR '','') (Some s) = [[]] \<and>
            tokens re_split_variant (Some s) = [[]])"
proof -
  have "filter (\<lambda>e. entry_Source e = Source r) es \<noteq> [] \<longleftrightarrow>
      tokens (str_split CHR '','') (TumorType r) \<noteq> [] \<and>
      tokens (str_split CHR '','') (TissueType r) \<noteq> [] \<and>
      tokens re_split_variant (Variant r) \<noteq> []"
    unfolding entries_of_row [OF assms] by (simp add: product_empty_iff)
  then show ?thesis
    using blank_text_tokens [of s]
    by (simp add: tokens_empty_iff str_split_nonempty re_split_variant_nonempty)
qed

text \<open>The first fact of this sheet has a blank tumor type; all entries are the second
  fact's.\<close>

theorem entries_of_blank_cells_counterexample:
  "raw_Tumor_Types (blank_tumor_sheet ! 0) = None \<and>
   clean_pmkb_df blank_tumor_sheet = Inr blank_tumor_df \<and>
   make_entries blank_tumor_df =
     Inr [\<lparr>entry_Source = 1, entry_TumorType = ''Melanoma'', entry_TissueType = ''Skin'',
           entry_Variant = ''V600E'', entry_Tier = 2, entry_Gene = Some ''BRAF''\<rparr>]"
  by (simp add: blank_tumor_sheet_def blank_tumor_df_def eval_defs upt_rec)

theorem entries_of_blank_cells_witness:
  "clean_pmkb_df example_sheet = Inr example_df \<and>
   make_entries example_df = Inr example_entries_df \<and>
   filter (\<lambda>e. entry_Source e = 0) example_entries_df \<noteq> [] \<and>
   tokens (str_split CHR '','') (Some '' '') = [[]] \<and>
   tokens re_split_variant (Some '' '') = [[]]"
proof -
  have r0: "example_df ! 0 \<in> set example_df" by (simp add: example_df_def)
  have sp: "\<forall>c\<in>set '' ''. is_space c" by (simp add: is_space_def)
  from entries_of_blank_cells [OF example_clean example_entries r0, of "'' ''"] sp
  show ?thesis using example_clean example_entries by (simp add: example_df_def)
qed

subsection \<open>Tier coercion\<close>




lemma object_dtype_text:
  assumes "r \<in> set raw" and "raw_Tier r = TierStr s"
  shows "object_dtype (map raw_Tier raw)"
proof -
  from assms(1) have "raw_Tier r \<in> set (map raw_Tier raw)" by simp
  then have "\<exists>c\<in>set (map raw_Tier raw). case c of TierStr _ \<Rightarrow> True | _ \<Rightarrow> False"
    by (rule bexI [rotated]) (simp add: assms(2))
  then show ?thesis by (simp only: object_dtype_def list_ex_iff)
qed




















subsection \<open>The steps of main\<close>

lemma if_given_supplied:
  "if_given flag step fs = (case supplied flag of [] \<Rightarrow> Inr fs | p # _ \<Rightarrow> step p fs)"
  by (simp add: if_given_def supplied_def split: option.splits)

lemma supplied_shape: "supplied flag = [] \<or> (\<exists>p. p \<noteq> [] \<and> supplied flag = [p])"
  by (cases flag) (simp_all add: supplied_def)

lemma and_then_Inr:
  assumes "and_then r step = Inr fs'"
  obtains fs1 where "r = Inr fs1" and "step fs1 = Inr fs'"
  using assms by (cases r) (simp_all add: and_then_def)

lemma step_interpretations:
  assumes "if_given flag (save_interpretations t) fs = Inr fs1"
  shows "fs1 = (case supplied flag of [] \<Rightarrow> fs | p # _ \<Rightarrow> fs(p \<mapsto> Tsv t))"
  using assms unfolding if_given_supplied
  by (cases "supplied flag") (auto simp: save_interpretations_def)

lemma step_entries:
  assumes "if_given flag (save_entries t) fs = Inr fs1"
  shows "fs1 = (case supplied flag of [] \<Rightarrow> fs | p # _ \<Rightarrow> fs(p \<mapsto> Csv t))"
  using assms unfolding if_given_supplied
  by (cases "supplied flag") (auto simp: save_entries_def)

lemma step_db:
  assumes "if_given flag (save_db i e) fs = Inr fs1"
  shows "case supplied flag of
           [] \<Rightarrow> fs1 = fs
         | d # _ \<Rightarrow> \<exists>c. fs1 = fs(d \<mapsto> Sqlite c) \<and> map_of c ''interpretations'' = Some i \<and>
                       map_of c ''entries'' = Some e"
proof (cases "supplied flag")
  case Nil
  with assms show ?thesis by (simp add: if_given_supplied)
next
  case (Cons d ds)
  with assms have s: "save_db i e d fs = Inr fs1" by (simp add: if_given_supplied)
  have m: "map_of (AList.update ''entries'' e (AList.update ''interpretations'' i c)) ''interpretations'' = Some i
      \<and> map_of (AList.update ''entries'' e (AList.update ''interpretations'' i c)) ''entries'' = Some e" for c
    by (simp add: update_conv')
  from s show ?thesis unfolding Cons list.case save_db_def
    using m by (auto split: option.splits disk_file.splits)
qed

lemma step_column:
  assumes "if_given flag (\<lambda>output. if_given dbflag (\<lambda>db. save_db_column col db output)) fs = Inr fs1"
  shows "case supplied flag of
           [] \<Rightarrow> fs1 = fs
         | t # _ \<Rightarrow>
            (case supplied dbflag of
               [] \<Rightarrow> fs1 = fs
             | d # _ \<Rightarrow> \<exists>c tb vs. fs d = Some (Sqlite c) \<and> map_of c ''entries'' = Some tb \<and>
                  map_of tb col = Some vs \<and>
                  fs1 = fs(t \<mapsto> Txt (concat (map format_line (unique vs)))))"
proof (cases "supplied flag")
  case Nil
  with assms show ?thesis by (simp add: if_given_supplied)
next
  case t: (Cons t ts)
  show ?thesis
  proof (cases "supplied dbflag")
    case Nil
    with assms t show ?thesis by (simp add: if_given_supplied)
  next
    case (Cons d ds)
    with assms t have "save_db_column col d t fs = Inr fs1" by (simp add: if_given_supplied)
    then show ?thesis unfolding t Cons list.case save_db_column_def
      by (auto split: option.splits disk_file.splits)
  qed
qed


lemma main_steps:
  assumes "main a fs = Inr fs'"
  obtains raw df es fs1 fs2 fs3 fs4 where
    "xlsx2df (pmkb_xlsx a) fs = Inr raw" and "clean_pmkb_df raw = Inr df"
    and "make_entries df = Inr es"
    and "if_given (interpretations_file a) (save_interpretations (df_table df)) fs = Inr fs1"
    and "if_given (entries_file a) (save_entries (entries_table es)) fs1 = Inr fs2"
    and "if_given (pmkb_db a) (save_db (df_table df) (entries_table es)) fs2 = Inr fs3"
    and "if_given (tumors_file a)
           (\<lambda>output. if_given (pmkb_db a) (\<lambda>db. save_db_column ''TissueType'' db output)) fs3 = Inr fs4"
    and "if_given (tissues_file a)
           (\<lambda>output. if_given (pmkb_db a) (\<lambda>db. save_db_column ''TumorType'' db output)) fs4 = Inr fs'"
proof -
  from assms obtain raw where raw: "xlsx2df (pmkb_xlsx a) fs = Inr raw"
    by (cases "xlsx2df (pmkb_xlsx a) fs") (simp_all add: main_def)
  from assms raw obtain df where df: "clean_pmkb_df raw = Inr df"
    by (cases "clean_pmkb_df raw") (simp_all add: main_def)
  from assms raw df obtain es where es: "make_entries df = Inr es"
    by (cases "make_entries df") (simp_all add: main_def)
  have t: "save_db_tumor = (\<lambda>db output. save_db_column ''TissueType'' db output)"
    and u: "save_db_tissues = (\<lambda>db output. save_db_column ''TumorType'' db output)"
    by (intro ext, simp add: save_db_tumor_def save_db_tissues_def)+
  from assms have m: "and_then (and_then (and_then (and_then
      (if_given (interpretations_file a) (save_interpretations (df_table df)) fs)
      (if_given (entries_file a) (save_entries (entries_table es))))
      (if_given (pmkb_db a) (save_db (df_table df) (entries_table es))))
      (if_given (tumors_file a)
         (\<lambda>output. if_given (pmkb_db a) (\<lambda>db. save_db_column ''TissueType'' db output))))
      (if_given (tissues_file a)
         (\<lambda>output. if_given (pmkb_db a) (\<lambda>db. save_db_column ''TumorType'' db output))) = Inr fs'"
    by (simp add: main_def raw df es Let_def t u)
  from m obtain fs4 where m4: "and_then (and_then (and_then
      (if_given (interpretations_file a) (save_interpretations (df_table df)) fs)
      (if_given (entries_file a) (save_entries (entries_table es))))
      (if_given (pmkb_db a) (save_db (df_table df) (entries_table es))))
      (if_given (tumors_file a)
         (\<lambda>output. if_given (pmkb_db a) (\<lambda>db. save_db_column ''TissueType'' db output))) = Inr fs4"
    and s5: "if_given (tissues_file a)
         (\<lambda>output. if_given (pmkb_db a) (\<lambda>db. save_db_column ''TumorType'' db output)) fs4 = Inr fs'"
    by (rule and_then_Inr)
  from m4 obtain fs3 where m3: "and_then (and_then
      (if_given (interpretations_file a) (save_interpretations (df_table df)) fs)
      (if_given (entries_file a) (save_entries (entries_table es))))
      (if_given (pmkb_db a) (save_db (df_table df) (entries_table es))) = Inr fs3"
    and s4: "if_given (tumors_file a)
         (\<lambda>output. if_given (pmkb_db a) (\<lambda>db. save_db_column ''TissueType'' db output)) fs3 = Inr fs4"
    by (rule and_then_Inr)
  from m3 obtain fs2 where m2: "and_then
      (if_given (interpretations_file a) (save_interpretations (df_table df)) fs)
      (if_given (entries_file a) (save_entries (entries_table es))) = Inr fs2"
    and s3: "if_given (pmkb_db a) (save_db (df_table df) (entries_table es)) fs2 = Inr fs3"
    by (rule and_then_Inr)
  from m2 obtain fs1 where
    s1: "if_given (interpretations_file a) (save_interpretations (df_table df)) fs = Inr fs1"
    and s2: "if_given (entries_file a) (save_entries (entries_table es)) fs1 = Inr fs2"
    by (rule and_then_Inr)
  from raw df es s1 s2 s3 s4 s5 show thesis by (rule that)
qed


lemma outputs_term_paths:
  "outputs a = supplied (interpretations_file a) @ supplied (entries_file a) @
     supplied (pmkb_db a) @ term_paths a (tumors_file a) @ term_paths a (tissues_file a)"
  by (simp add: outputs_def term_paths_def)

lemma frame_interpretations:
  assumes "if_given flag (save_interpretations t) fs = Inr fs1"
  shows "(\<forall>p. p \<notin> set (supplied flag) \<longrightarrow> fs1 p = fs p) \<and>
         (\<forall>p\<in>set (supplied flag). fs1 p = Some (Tsv t))"
  using step_interpretations [OF assms] supplied_shape [of flag] by auto

lemma frame_entries:
  assumes "if_given flag (save_entries t) fs = Inr fs1"
  shows "(\<forall>p. p \<notin> set (supplied flag) \<longrightarrow> fs1 p = fs p) \<and>
         (\<forall>p\<in>set (supplied flag). fs1 p = Some (Csv t))"
  using step_entries [OF assms] supplied_shape [of flag] by auto

lemma frame_db:
  assumes "if_given flag (save_db i e) fs = Inr fs1"
  shows "(\<forall>p. p \<notin> set (supplied flag) \<longrightarrow> fs1 p = fs p) \<and>
         (\<forall>p\<in>set (supplied flag). \<exists>c. fs1 p = Some (Sqlite c) \<and>
             map_of c ''interpretations'' = Some i \<and> map_of c ''entries'' = Some e)"
  using step_db [OF assms] supplied_shape [of flag] by auto

lemma frame_column:
  assumes "if_given flag (\<lambda>output. if_given (pmkb_db a) (\<lambda>db. save_db_column col db output)) fs = Inr fs1"
  shows "(\<forall>p. p \<notin> set (term_paths a flag) \<longrightarrow> fs1 p = fs p) \<and>
         (\<forall>p\<in>set (term_paths a flag). \<exists>x. fs1 p = Some (Txt x))"
  using step_column [OF assms] supplied_shape [of flag] supplied_shape [of "pmkb_db a"]
  by (auto simp: term_paths_def)

lemma main_effect:
  assumes "main a fs = Inr fs'"
  obtains raw df es fs1 fs2 fs3 fs4 where
    "xlsx2df (pmkb_xlsx a) fs = Inr raw" and "clean_pmkb_df raw = Inr df"
    and "make_entries df = Inr es"
    and "\<forall>p. p \<notin> set (supplied (interpretations_file a)) \<longrightarrow> fs1 p = fs p"
    and "\<forall>p\<in>set (supplied (interpretations_file a)). fs1 p = Some (Tsv (df_table df))"
    and "\<forall>p. p \<notin> set (supplied (entries_file a)) \<longrightarrow> fs2 p = fs1 p"
    and "\<forall>p\<in>set (supplied (entries_file a)). fs2 p = Some (Csv (entries_table es))"
    and "\<forall>p. p \<notin> set (supplied (pmkb_db a)) \<longrightarrow> fs3 p = fs2 p"
    and "\<forall>p\<in>set (supplied (pmkb_db a)). \<exists>c. fs3 p = Some (Sqlite c) \<and>
           map_of c ''interpretations'' = Some (df_table df) \<and>
           map_of c ''entries'' = Some (entries_table es)"
    and "\<forall>p. p \<notin> set (term_paths a (tumors_file a)) \<longrightarrow> fs4 p = fs3 p"
    and "\<forall>p\<in>set (term_paths a (tumors_file a)). \<exists>x. fs4 p = Some (Txt x)"
    and "\<forall>p. p \<notin> set (term_paths a (tissues_file a)) \<longrightarrow> fs' p = fs4 p"
    and "\<forall>p\<in>set (term_paths a (tissues_file a)). \<exists>x. fs' p = Some (Txt x)"
proof -
  from assms obtain raw df es fs1 fs2 fs3 fs4 where
    r: "xlsx2df (pmkb_xlsx a) fs = Inr raw" "clean_pmkb_df raw = Inr df" "make_entries df = Inr es"
    and s1: "if_given (interpretations_file a) (save_interpretations (df_table df)) fs = Inr fs1"
    and s2: "if_given (entries_file a) (save_entries (entries_table es)) fs1 = Inr fs2"
    and s3: "if_given (pmkb_db a) (save_db (df_table df) (entries_table es)) fs2 = Inr fs3"
    and s4: "if_given (tumors_file a)
           (\<lambda>output. if_given (pmkb_db a) (\<lambda>db. save_db_column ''TissueType'' db output)) fs3 = Inr fs4"
    and s5: "if_given (tissues_file a)
           (\<lambda>output. if_given (pmkb_db a) (\<lambda>db. save_db_column ''TumorType'' db output)) fs4 = Inr fs'"
    by (rule main_steps)
  note f1 = frame_interpretations [OF s1] and f2 = frame_entries [OF s2] and f3 = frame_db [OF s3]
    and f4 = frame_column [OF s4] and f5 = frame_column [OF s5]
  show thesis
    by (rule that [OF r f1 [THEN conjunct1] f1 [THEN conjunct2] f2 [THEN conjunct1]
          f2 [THEN conjunct2] f3 [THEN conjunct1] f3 [THEN conjunct2] f4 [THEN conjunct1]
          f4 [THEN conjunct2] f5 [THEN conjunct1] f5 [THEN conjunct2]])
qed

lemma main_frame_and_products:
  assumes "main a fs = Inr fs'"
  shows "(\<forall>p. p \<notin> set (outputs a) \<longrightarrow> fs' p = fs p) \<and>
         (distinct (outputs a) \<longrightarrow>
            (\<forall>p\<in>set (supplied (interpretations_file a)). \<exists>t. fs' p = Some (Tsv t)) \<and>
            (\<forall>p\<in>set (supplied (entries_file a)). \<exists>t. fs' p = Some (Csv t)) \<and>
            (\<forall>p\<in>set (supplied (pmkb_db a)). \<exists>c. fs' p = Some (Sqlite c)) \<and>
            (supplied (pmkb_db a) \<noteq> [] \<longrightarrow>
               (\<forall>p\<in>set (supplied (tumors_file a)). \<exists>x. fs' p = Some (Txt x)) \<and>
               (\<forall>p\<in>set (supplied (tissues_file a)). \<exists>x. fs' p = Some (Txt x))))"
proof -
  from assms obtain raw df es fs1 fs2 fs3 fs4 where
    f1: "\<forall>p. p \<notin> set (supplied (interpretations_file a)) \<longrightarrow> fs1 p = fs p"
    and p1: "\<forall>p\<in>set (supplied (interpretations_file a)). fs1 p = Some (Tsv (df_table df))"
    and f2: "\<forall>p. p \<notin> set (supplied (entries_file a)) \<longrightarrow> fs2 p = fs1 p"
    and p2: "\<forall>p\<in>set (supplied (entries_file a)). fs2 p = Some (Csv (entries_table es))"
    and f3: "\<forall>p. p \<notin> set (supplied (pmkb_db a)) \<longrightarrow> fs3 p = fs2 p"
    and p3: "\<forall>p\<in>set (supplied (pmkb_db a)). \<exists>c. fs3 p = Some (Sqlite c) \<and>
           map_of c ''interpretations'' = Some (df_table df) \<and>
           map_of c ''entries'' = Some (entries_table es)"
    and f4: "\<forall>p. p \<notin> set (term_paths a (tumors_file a)) \<longrightarrow> fs4 p = fs3 p"
    and p4: "\<forall>p\<in>set (term_paths a (tumors_file a)). \<exists>x. fs4 p = Some (Txt x)"
    and f5: "\<forall>p. p \<notin> set (term_paths a (tissues_file a)) \<longrightarrow> fs' p = fs4 p"
    and p5: "\<forall>p\<in>set (term_paths a (tissues_file a)). \<exists>x. fs' p = Some (Txt x)"
    by (rule main_effect)
  have frame: "\<forall>p. p \<notin> set (outputs a) \<longrightarrow> fs' p = fs p"
    unfolding outputs_term_paths using f1 f2 f3 f4 f5 by simp
  have prod: "distinct (outputs a) \<Longrightarrow>
      (\<forall>p\<in>set (supplied (interpretations_file a)). fs' p = fs1 p) \<and>
      (\<forall>p\<in>set (supplied (entries_file a)). fs' p = fs2 p) \<and>
      (\<forall>p\<in>set (supplied (pmkb_db a)). fs' p = fs3 p) \<and>
      (\<forall>p\<in>set (term_paths a (tumors_file a)). fs' p = fs4 p)"
    unfolding outputs_term_paths using f2 f3 f4 f5 by (simp add: disjoint_iff)
  have t: "supplied (pmkb_db a) \<noteq> [] \<Longrightarrow> term_paths a flag = supplied flag" for flag
    by (simp add: term_paths_def)
  show ?thesis
  proof (intro conjI impI)
    show "\<forall>p. p \<notin> set (outputs a) \<longrightarrow> fs' p = fs p" by (rule frame)
  next
    assume d: "distinct (outputs a)"
    show "\<forall>p\<in>set (supplied (interpretations_file a)). \<exists>t. fs' p = Some (Tsv t)"
      using prod [OF d] p1 by simp
    show "\<forall>p\<in>set (supplied (entries_file a)). \<exists>t. fs' p = Some (Csv t)"
      using prod [OF d] p2 by simp
    show "\<forall>p\<in>set (supplied (pmkb_db a)). \<exists>c. fs' p = Some (Sqlite c)"
      using prod [OF d] p3 by fastforce
    assume s: "supplied (pmkb_db a) \<noteq> []"
    show "\<forall>p\<in>set (supplied (tumors_file a)). \<exists>x. fs' p = Some (Txt x)"
      using prod [OF d] p4 t [OF s] by simp
    show "\<forall>p\<in>set (supplied (tissues_file a)). \<exists>x. fs' p = Some (Txt x)"
      using p5 t [OF s] by simp
  qed
qed

lemma save_db_term_eqs:
  "save_db_tumor db output = save_db_column ''TissueType'' db output"
  "save_db_tissues db output = save_db_column ''TumorType'' db output"
  by (intro ext, simp add: save_db_tumor_def save_db_tissues_def)+

lemma entries_table_columns:
  "map_of (entries_table es) ''TissueType'' = Some (map (\<lambda>e. CStr (entry_TissueType e)) es)"
  "map_of (entries_table es) ''TumorType'' = Some (map (\<lambda>e. CStr (entry_TumorType e)) es)"
  by (simp_all add: entries_table_def)

lemma save_db_succeeds:
  assumes "fs d = None \<or> (\<exists>c. fs d = Some (Sqlite c))"
  shows "\<exists>c. save_db i e d fs = Inr (fs(d \<mapsto> Sqlite c)) \<and> map_of c ''entries'' = Some e"
  using assms by (auto simp: save_db_def update_conv')

lemma save_db_column_succeeds:
  assumes "fs d = Some (Sqlite c)" and "map_of c ''entries'' = Some tb" and "map_of tb col = Some vs"
  shows "save_db_column col d t fs = Inr (fs(t \<mapsto> Txt (concat (map format_line (unique vs)))))"
  using assms by (simp add: save_db_column_def)

lemma main_succeeds:
  assumes raw: "xlsx2df (pmkb_xlsx a) fs = Inr raw" and df: "clean_pmkb_df raw = Inr df"
    and es: "make_entries df = Inr es" and dist: "distinct (outputs a)"
    and db: "\<forall>d\<in>set (supplied (pmkb_db a)). fs d = None \<or> (\<exists>c. fs d = Some (Sqlite c))"
  shows "\<exists>fs'. main a fs = Inr fs'"
proof -
  let ?i = "df_table df" and ?e = "entries_table es"
  obtain fs1 where s1: "if_given (interpretations_file a) (save_interpretations ?i) fs = Inr fs1"
    by (cases "supplied (interpretations_file a)")
       (simp_all add: if_given_supplied save_interpretations_def)
  obtain fs2 where s2: "if_given (entries_file a) (save_entries ?e) fs1 = Inr fs2"
    by (cases "supplied (entries_file a)") (simp_all add: if_given_supplied save_entries_def)
  note f1 = frame_interpretations [OF s1] and f2 = frame_entries [OF s2]
  have d2: "\<forall>d\<in>set (supplied (pmkb_db a)). fs2 d = fs d"
    using dist f1 f2 unfolding outputs_term_paths by (simp add: disjoint_iff) metis
  have "\<exists>fs3. if_given (pmkb_db a) (save_db ?i ?e) fs2 = Inr fs3"
  proof (cases "supplied (pmkb_db a)")
    case Nil
    then show ?thesis by (simp add: if_given_supplied)
  next
    case (Cons d ds)
    then have "fs2 d = None \<or> (\<exists>c. fs2 d = Some (Sqlite c))" using d2 db by simp
    from save_db_succeeds [of fs2 d ?i ?e, OF this] show ?thesis
      by (auto simp: if_given_supplied Cons)
  qed
  then obtain fs3 where s3: "if_given (pmkb_db a) (save_db ?i ?e) fs2 = Inr fs3" ..
  note f3 = frame_db [OF s3]
  have "\<exists>fs4. if_given (tumors_file a)
           (\<lambda>output. if_given (pmkb_db a) (\<lambda>db. save_db_column ''TissueType'' db output)) fs3 = Inr fs4"
  proof (cases "supplied (tumors_file a)")
    case Nil
    then show ?thesis by (simp add: if_given_supplied)
  next
    case t: (Cons t ts)
    show ?thesis
    proof (cases "supplied (pmkb_db a)")
      case Nil
      then show ?thesis by (simp add: if_given_supplied t)
    next
      case (Cons d ds)
      with f3 obtain c where "fs3 d = Some (Sqlite c)" "map_of c ''entries'' = Some ?e" by auto
      from save_db_column_succeeds [of fs3 d c ?e, OF this entries_table_columns(1)]
      show ?thesis by (simp add: if_given_supplied t Cons)
    qed
  qed
  then obtain fs4 where s4: "if_given (tumors_file a)
           (\<lambda>output. if_given (pmkb_db a) (\<lambda>db. save_db_column ''TissueType'' db output)) fs3 = Inr fs4" ..
  note f4 = frame_column [OF s4]
  have d4: "\<forall>d\<in>set (supplied (pmkb_db a)). fs4 d = fs3 d"
    using dist f4 unfolding outputs_term_paths by (simp add: disjoint_iff)
  have "\<exists>fs5. if_given (tissues_file a)
           (\<lambda>output. if_given (pmkb_db a) (\<lambda>db. save_db_column ''TumorType'' db output)) fs4 = Inr fs5"
  proof (cases "supplied (tissues_file a)")
    case Nil
    then show ?thesis by (simp add: if_given_supplied)
  next
    case t: (Cons t ts)
    show ?thesis
    proof (cases "supplied (pmkb_db a)")
      case Nil
      then show ?thesis by (simp add: if_given_supplied t)
    next
      case (Cons d ds)
      with f3 d4 obtain c where "fs4 d = Some (Sqlite c)" "map_of c ''entries'' = Some ?e" by auto
      from save_db_column_succeeds [of fs4 d c ?e, OF this entries_table_columns(2)]
      show ?thesis by (simp add: if_given_supplied t Cons)
    qed
  qed
  then obtain fs5 where s5: "if_given (tissues_file a)
           (\<lambda>output. if_given (pmkb_db a) (\<lambda>db. save_db_column ''TumorType'' db output)) fs4 = Inr fs5" ..
  have "main a fs = Inr fs5"
    using s1 s2 s3 s4 s5
    by (simp add: main_def raw df es Let_def and_then_def save_db_term_eqs)
  then show ?thesis by blast
qed

lemmas main_defs =
  main_def xlsx2df_def if_given_def and_then_def save_interpretations_def save_entries_def
  save_db_def save_db_column_def save_db_tumor_def save_db_tissues_def unique_def
  format_line_def df_table_def entries_table_def opt_cell_def Let_def

subsection \<open>The interpretations file\<close>

lemma main_interpretations_file:
  assumes "main a fs = Inr fs'" and "p \<in> set (supplied (interpretations_file a))"
    and "distinct (outputs a)"
  shows "\<exists>raw df. xlsx2df (pmkb_xlsx a) fs = Inr raw \<and> clean_pmkb_df raw = Inr df \<and>
           fs' p = Some (Tsv (df_table df))"
proof -
  from assms(1) obtain raw df es fs1 fs2 fs3 fs4 where
    r: "xlsx2df (pmkb_xlsx a) fs = Inr raw" "clean_pmkb_df raw = Inr df"
    and p1: "\<forall>p\<in>set (supplied (interpretations_file a)). fs1 p = Some (Tsv (df_table df))"
    and f2: "\<forall>p. p \<notin> set (supplied (entries_file a)) \<longrightarrow> fs2 p = fs1 p"
    and f3: "\<forall>p. p \<notin> set (supplied (pmkb_db a)) \<longrightarrow> fs3 p = fs2 p"
    and f4: "\<forall>p. p \<notin> set (term_paths a (tumors_file a)) \<longrightarrow> fs4 p = fs3 p"
    and f5: "\<forall>p. p \<notin> set (term_paths a (tissues_file a)) \<longrightarrow> fs' p = fs4 p"
    by (rule main_effect)
  from assms(2,3) have "p \<notin> set (supplied (entries_file a))" "p \<notin> set (supplied (pmkb_db a))"
    "p \<notin> set (term_paths a (tumors_file a))" "p \<notin> set (term_paths a (tissues_file a))"
    unfolding outputs_term_paths by auto
  then have "fs' p = fs1 p" using f2 f3 f4 f5 by simp
  with p1 assms(2) r show ?thesis by auto
qed

text \<open>
  C6, as the code has it. The interpretations file of a run (its path not given to another
  output as well) is the whole cleaned frame: one row per row of the sheet, \<open>Source\<close>
  being the row's position, under all eight columns of the cleaned frame, not only
  \<open>Source\<close>, \<open>Interpretation\<close> and \<open>Citation\<close>; those three are what
  \<open>make_interpretations\<close> would select from it.
\<close>

theorem interpretations_artifact:
  assumes "main a fs = Inr fs'" and "p \<in> set (supplied (interpretations_file a))"
    and "distinct (outputs a)"
  shows "\<exists>raw df. xlsx2df (pmkb_xlsx a) fs = Inr raw \<and> clean_pmkb_df raw = Inr df \<and>
           fs' p = Some (Tsv (df_table df)) \<and>
           map fst (df_table df) =
             [''Source'', ''TumorType'', ''TissueType'', ''Variant'', ''Gene'', ''Tier'',
              ''Interpretation'', ''Citation''] \<and>
           (\<forall>c\<in>set (df_table df). length (snd c) = length raw) \<and>
           map_of (df_table df) ''Source'' = Some (map (\<lambda>i. CInt (int i)) [0..<length raw]) \<and>
           make_interpretations (df_table df) =
             Inr [(''Source'', map (\<lambda>r. CInt (int (Source r))) df),
                  (''Interpretation'', map (\<lambda>r. opt_cell (Interpretation r)) df),
                  (''Citation'', map (\<lambda>r. CStr (Citation r)) df)]"
proof -
  from main_interpretations_file [OF assms] obtain raw df where
    r: "xlsx2df (pmkb_xlsx a) fs = Inr raw" and d: "clean_pmkb_df raw = Inr df"
    and f: "fs' p = Some (Tsv (df_table df))" by blast
  note len = clean_pmkb_df_rows(1) [OF d] and src = clean_pmkb_df_rows(2) [OF d]
  have "map (\<lambda>r. CInt (int (Source r))) df = map (\<lambda>i. CInt (int i)) (map Source df)"
    by (simp add: comp_def)
  then have s: "map (\<lambda>r. CInt (int (Source r))) df = map (\<lambda>i. CInt (int i)) [0..<length raw]"
    using src len by simp
  show ?thesis
  proof (intro exI conjI)
    show "xlsx2df (pmkb_xlsx a) fs = Inr raw" by (rule r)
    show "clean_pmkb_df raw = Inr df" by (rule d)
    show "fs' p = Some (Tsv (df_table df))" by (rule f)
    show "map fst (df_table df) =
             [''Source'', ''TumorType'', ''TissueType'', ''Variant'', ''Gene'', ''Tier'',
              ''Interpretation'', ''Citation'']"
      by (simp add: df_table_def)
    show "\<forall>c\<in>set (df_table df). length (snd c) = length raw"
      by (simp add: df_table_def len)
    show "map_of (df_table df) ''Source'' = Some (map (\<lambda>i. CInt (int i)) [0..<length raw])"
      using s by (simp add: df_table_def)
    show "make_interpretations (df_table df) =
             Inr [(''Source'', map (\<lambda>r. CInt (int (Source r))) df),
                  (''Interpretation'', map (\<lambda>r. opt_cell (Interpretation r)) df),
                  (''Citation'', map (\<lambda>r. CStr (Citation r)) df)]"
      by (simp add: make_interpretations_def df_table_def)
  qed
qed

text \<open>The file written for the example sheet has the tumor type, tissue type, variant,
  gene and tier columns too.\<close>

theorem interpretations_artifact_counterexample:
  "main interpretations_only example_fs =
     Inr (example_fs(''pmkb.interpretations.tsv'' \<mapsto> Tsv
       [(''Source'', [CInt 0, CInt 1]),
        (''TumorType'', [CStr ''Lung Cancer, Glioma'', CStr ''Melanoma'']),
        (''TissueType'', [CStr ''Lung'', CStr ''Skin, Eye'']),
        (''Variant'', [CStr ''L858R'', CStr ''V600E, V600K'']),
        (''Gene'', [CStr ''EGFR'', CStr ''BRAF'']),
        (''Tier'', [CInt 1, CInt 0]),
        (''Interpretation'', [CStr ''Sensitising mutation.'', CNaN]),
        (''Citation'', [CStr (''A'' @ [CHR 0x0A, CHR 0x0A] @ ''B''), CStr []])]))"
  by (simp add: interpretations_only_def example_fs_def main_defs example_clean example_entries)
     (simp add: example_df_def)

theorem interpretations_artifact_witness:
  "main interpretations_only example_fs =
     Inr (example_fs(''pmkb.interpretations.tsv'' \<mapsto> Tsv (df_table example_df))) \<and>
   xlsx2df (pmkb_xlsx interpretations_only) example_fs = Inr example_sheet \<and>
   clean_pmkb_df example_sheet = Inr example_df \<and>
   length example_sheet = 2 \<and>
   map_of (df_table example_df) ''Source'' = Some [CInt 0, CInt 1]"
proof -
  have m: "main interpretations_only example_fs =
     Inr (example_fs(''pmkb.interpretations.tsv'' \<mapsto> Tsv (df_table example_df)))"
    by (simp add: interpretations_only_def example_fs_def xlsx2df_def main_def if_given_def
        and_then_def save_interpretations_def example_clean example_entries)
  have x: "xlsx2df (pmkb_xlsx interpretations_only) example_fs = Inr example_sheet"
    by (simp add: interpretations_only_def example_fs_def xlsx2df_def)
  have p: "''pmkb.interpretations.tsv'' \<in> set (supplied (interpretations_file interpretations_only))"
    and d: "distinct (outputs interpretations_only)"
    by (simp_all add: interpretations_only_def outputs_def supplied_def)
  from interpretations_artifact [OF m p d] x example_clean
  have "map_of (df_table example_df) ''Source'' = Some (map (\<lambda>i. CInt (int i)) [0..<length example_sheet])"
    by auto
  moreover have "length example_sheet = 2" by (simp add: example_sheet_def)
  ultimately show ?thesis using m x example_clean by (simp add: upt_rec)
qed

subsection \<open>The term files\<close>

text \<open>
  C7 on the example sheet, every output asked for: the tumor-terms file lists the tissue
  types \<open>Lung\<close>, \<open>Skin\<close>, \<open>Eye\<close>, and the tissue-terms file lists the tumor types
  \<open>Lung Cancer\<close>, \<open>Glioma\<close>, \<open>Melanoma\<close>.
\<close>

theorem term_files_swapped:
  "map_sum id (\<lambda>fs'. (fs' ''pmkb.tumor-terms.txt'', fs' ''pmkb.tissue-terms.txt''))
     (main all_outputs example_fs) =
   Inr (Some (Txt (''Lung'' @ [CHR 0x0A] @ ''Skin'' @ [CHR 0x0A] @ ''Eye'' @ [CHR 0x0A])),
        Some (Txt (''Lung Cancer'' @ [CHR 0x0A] @ ''Glioma'' @ [CHR 0x0A] @ ''Melanoma'' @ [CHR 0x0A])))"
  by (simp add: all_outputs_def example_fs_def main_defs example_clean example_entries)
     (simp add: example_df_def example_entries_df_def format_line_def)

subsection \<open>Outputs by flag\<close>

text \<open>
  C8, as the code has it. A run that ends without an error changes no path but those its
  guards select: the paths given for the interpretations, the entries and the database,
  and the paths given for the tumor terms and the tissue terms when the database is given
  too. When these paths are distinct, each of them then holds the artifact of its flag.
  Such a run does end without an error when the sheet cleans and expands and the database
  path holds no file or a database.
\<close>

theorem outputs_by_flag:
  "(main a fs = Inr fs' \<longrightarrow>
      (\<forall>p. p \<notin> set (outputs a) \<longrightarrow> fs' p = fs p) \<and>
      (distinct (outputs a) \<longrightarrow>
         (\<forall>p\<in>set (supplied (interpretations_file a)). \<exists>t. fs' p = Some (Tsv t)) \<and>
         (\<forall>p\<in>set (supplied (entries_file a)). \<exists>t. fs' p = Some (Csv t)) \<and>
         (\<forall>p\<in>set (supplied (pmkb_db a)). \<exists>c. fs' p = Some (Sqlite c)) \<and>
         (supplied (pmkb_db a) \<noteq> [] \<longrightarrow>
            (\<forall>p\<in>set (supplied (tumors_file a)). \<exists>x. fs' p = Some (Txt x)) \<and>
            (\<forall>p\<in>set (supplied (tissues_file a)). \<exists>x. fs' p = Some (Txt x))))) \<and>
   (xlsx2df (pmkb_xlsx a) fs = Inr raw \<and> clean_pmkb_df raw = Inr df \<and>
    make_entries df = Inr es \<and> distinct (outputs a) \<and>
    (\<forall>d\<in>set (supplied (pmkb_db a)). fs d = None \<or> (\<exists>c. fs d = Some (Sqlite c))) \<longrightarrow>
      (\<exists>fs''. main a fs = Inr fs''))"
proof (rule conjI)
  show "main a fs = Inr fs' \<longrightarrow>
      (\<forall>p. p \<notin> set (outputs a) \<longrightarrow> fs' p = fs p) \<and>
      (distinct (outputs a) \<longrightarrow>
         (\<forall>p\<in>set (supplied (interpretations_file a)). \<exists>t. fs' p = Some (Tsv t)) \<and>
         (\<forall>p\<in>set (supplied (entries_file a)). \<exists>t. fs' p = Some (Csv t)) \<and>
         (\<forall>p\<in>set (supplied (pmkb_db a)). \<exists>c. fs' p = Some (Sqlite c)) \<and>
         (supplied (pmkb_db a) \<noteq> [] \<longrightarrow>
            (\<forall>p\<in>set (supplied (tumors_file a)). \<exists>x. fs' p = Some (Txt x)) \<and>
            (\<forall>p\<in>set (supplied (tissues_file a)). \<exists>x. fs' p = Some (Txt x))))"
    by (rule impI) (rule main_frame_and_products)
  show "xlsx2df (pmkb_xlsx a) fs = Inr raw \<and> clean_pmkb_df raw = Inr df \<and>
    make_entries df = Inr es \<and> distinct (outputs a) \<and>
    (\<forall>d\<in>set (supplied (pmkb_db a)). fs d = None \<or> (\<exists>c. fs d = Some (Sqlite c))) \<longrightarrow>
      (\<exists>fs''. main a fs = Inr fs'')"
  proof (rule impI)
    assume h: "xlsx2df (pmkb_xlsx a) fs = Inr raw \<and> clean_pmkb_df raw = Inr df \<and>
      make_entries df = Inr es \<and> distinct (outputs a) \<and>
      (\<forall>d\<in>set (supplied (pmkb_db a)). fs d = None \<or> (\<exists>c. fs d = Some (Sqlite c)))"
    show "\<exists>fs''. main a fs = Inr fs''"
      by (rule main_succeeds [of a fs raw df es]) (use h in simp_all)
  qed
qed

text \<open>The flag for the tumor terms alone writes nothing.\<close>

theorem outputs_by_flag_counterexample:
  "tumors_file tumors_only = Some ''pmkb.tumor-terms.txt'' \<and>
   example_fs ''pmkb.tumor-terms.txt'' = None \<and>
   main tumors_only example_fs = Inr example_fs"
  by (simp add: tumors_only_def example_fs_def xlsx2df_def main_def if_given_def and_then_def
      example_clean example_entries)

theorem outputs_by_flag_witness:
  "outputs all_outputs =
     [''pmkb.interpretations.tsv'', ''pmkb.entries.csv'', ''pmkb.db'', ''pmkb.tumor-terms.txt'',
      ''pmkb.tissue-terms.txt''] \<and>
   outputs tumors_only = [] \<and>
   (\<exists>fs'. main all_outputs example_fs = Inr fs' \<and>
      fs' ''pmkb.xlsx'' = example_fs ''pmkb.xlsx'' \<and>
      (\<exists>t. fs' ''pmkb.interpretations.tsv'' = Some (Tsv t)) \<and>
      (\<exists>t. fs' ''pmkb.entries.csv'' = Some (Csv t)) \<and>
      (\<exists>c. fs' ''pmkb.db'' = Some (Sqlite c)) \<and>
      (\<exists>x. fs' ''pmkb.tumor-terms.txt'' = Some (Txt x)) \<and>
      (\<exists>x. fs' ''pmkb.tissue-terms.txt'' = Some (Txt x)))"
proof -
  have o: "outputs all_outputs =
     [''pmkb.interpretations.tsv'', ''pmkb.entries.csv'', ''pmkb.db'', ''pmkb.tumor-terms.txt'',
      ''pmkb.tissue-terms.txt'']"
    and s: "supplied (interpretations_file all_outputs) = [''pmkb.interpretations.tsv'']"
      "supplied (entries_file all_outputs) = [''pmkb.entries.csv'']"
      "supplied (pmkb_db all_outputs) = [''pmkb.db'']"
      "supplied (tumors_file all_outputs) = [''pmkb.tumor-terms.txt'']"
      "supplied (tissues_file all_outputs) = [''pmkb.tissue-terms.txt'']"
    and t: "outputs tumors_only = []"
    by (simp_all add: outputs_def supplied_def all_outputs_def tumors_only_def)
  have d: "distinct (outputs all_outputs)" unfolding o by simp
  have x: "xlsx2df (pmkb_xlsx all_outputs) example_fs = Inr example_sheet"
    by (simp add: all_outputs_def example_fs_def xlsx2df_def)
  have f: "\<forall>d\<in>set (supplied (pmkb_db all_outputs)).
      example_fs d = None \<or> (\<exists>c. example_fs d = Some (Sqlite c))"
    unfolding s by (simp add: example_fs_def)
  have "\<exists>fs''. main all_outputs example_fs = Inr fs''"
    by (rule outputs_by_flag [of all_outputs example_fs example_fs example_sheet example_df
          example_entries_df, THEN conjunct2, THEN mp])
       (simp add: x example_clean example_entries d f)
  then obtain fs' where m: "main all_outputs example_fs = Inr fs'" by auto
  have n: "''pmkb.xlsx'' \<notin> set (outputs all_outputs)" unfolding o by simp
  from outputs_by_flag [of all_outputs example_fs fs' example_sheet example_df example_entries_df]
    m d n
  have "fs' ''pmkb.xlsx'' = example_fs ''pmkb.xlsx'' \<and>
      (\<exists>t. fs' ''pmkb.interpretations.tsv'' = Some (Tsv t)) \<and>
      (\<exists>t. fs' ''pmkb.entries.csv'' = Some (Csv t)) \<and>
      (\<exists>c. fs' ''pmkb.db'' = Some (Sqlite c)) \<and>
      (\<exists>x. fs' ''pmkb.tumor-terms.txt'' = Some (Txt x)) \<and>
      (\<exists>x. fs' ''pmkb.tissue-terms.txt'' = Some (Txt x))"
    unfolding s by simp
  with m o t show ?thesis by (intro conjI exI [of _ fs']) simp_all
qed

subsection \<open>The matcher\<close>

lemma unique_props: "distinct (unique xs)" "set (unique xs) = set xs"
  by (simp_all add: unique_def)

lemma map_filter_source_ids:
  assumes "\<And>s i. g s = Some i \<Longrightarrow> source_id i = s"
  shows "map source_id (List.map_filter g xs) = filter (\<lambda>s. g s \<noteq> None) xs"
proof (induction xs)
  case Nil
  then show ?case by (simp add: List.map_filter_simps)
next
  case (Cons x xs)
  then show ?case using assms by (cases "g x") (simp_all add: List.map_filter_simps)
qed

lemma find_by_source_id:
  "find (\<lambda>i. source_id i = s) is = Some i \<Longrightarrow> source_id i = s"
  by (auto simp: find_Some_iff)

lemma find_unique_key:
  assumes "distinct (map source_id is)" and "i \<in> set is"
  shows "find (\<lambda>j. source_id j = source_id i) is = Some i"
  using assms
proof (induction "is")
  case Nil
  then show ?case by simp
next
  case (Cons j js)
  then show ?case by (auto simp: image_iff)
qed

lemma distinct_count_one: "distinct xs \<Longrightarrow> x \<in> set xs \<Longrightarrow> count_list xs x = 1"
  by (induction xs) auto

lemma set_map_filter: "set (List.map_filter g xs) = {y. \<exists>x\<in>set xs. g x = Some y}"
  by (induction xs) (auto simp: List.map_filter_simps split: option.splits)

text \<open>
  C10. The interpretations \<open>find_interpretations\<close> returns have pairwise different source
  ids; and when the interpretations table is keyed uniquely by source id, an interpretation
  whose source id is that of an entry the sample matches, through however many entries,
  occurs exactly once in the result.
\<close>

theorem matcher_deduplicates:
  assumes "find_interpretations sv entries interpretations = Inr out"
    and "variant_description sv = Some vd"
  shows "distinct (map source_id out) \<and>
         (distinct (map source_id interpretations) \<longrightarrow>
            (\<forall>i\<in>set interpretations.
               (\<exists>e\<in>set entries. matches sv vd e \<and> entry_Source e = source_id i) \<longrightarrow>
               count_list out i = 1))"
proof -
  let ?surv = "filter (matches sv vd) entries"
  let ?ord = "sort_key (tier_of ?surv) (unique (map entry_Source ?surv))"
  let ?g = "\<lambda>s. find (\<lambda>i. source_id i = s) interpretations"
  from assms have out: "out = List.map_filter ?g ?ord"
    by (simp add: find_interpretations_def Let_def)
  have d: "distinct ?ord" by (simp add: unique_props)
  have s: "set ?ord = entry_Source ` set ?surv" by (simp add: unique_props)
  have m: "map source_id out = filter (\<lambda>s. ?g s \<noteq> None) ?ord"
    unfolding out by (rule map_filter_source_ids) (rule find_by_source_id)
  have dm: "distinct (map source_id out)" unfolding m using d by simp
  then have dout: "distinct out" by (rule distinct_map [THEN iffD1, THEN conjunct1])
  have c: "count_list out i = 1"
    if k: "distinct (map source_id interpretations)" and i: "i \<in> set interpretations"
      and e: "\<exists>e\<in>set entries. matches sv vd e \<and> entry_Source e = source_id i" for i
  proof -
    from e have "source_id i \<in> set ?ord" unfolding s by force
    moreover have "?g (source_id i) = Some i" using k i by (rule find_unique_key)
    ultimately have "i \<in> set out" unfolding out set_map_filter by blast
    with dout show ?thesis by (rule distinct_count_one)
  qed
  show ?thesis using dm c by blast
qed

theorem matcher_deduplicates_witness:
  "find_interpretations egfr_query example_entries_df example_interpretations =
     Inr [\<lparr>source_id = 0, interpretation_text = Some ''Sensitising mutation.'',
           citations = ''A'' @ [CHR 0x0A, CHR 0x0A] @ ''B''\<rparr>] \<and>
   length (filter (matches egfr_query ''L858R'') example_entries_df) = 2 \<and>
   count_list [\<lparr>source_id = 0, interpretation_text = Some ''Sensitising mutation.'',
           citations = ''A'' @ [CHR 0x0A, CHR 0x0A] @ ''B''\<rparr>] (hd example_interpretations) = 1"
proof -
  have f: "find_interpretations egfr_query example_entries_df example_interpretations =
     Inr [\<lparr>source_id = 0, interpretation_text = Some ''Sensitising mutation.'',
           citations = ''A'' @ [CHR 0x0A, CHR 0x0A] @ ''B''\<rparr>]"
    by (simp add: find_interpretations_def egfr_query_def example_entries_df_def
        example_interpretations_def matches_def in_context_def unique_def tier_of_def
        List.map_filter_simps)
  have v: "variant_description egfr_query = Some ''L858R''" by (simp add: egfr_query_def)
  have l: "length (filter (matches egfr_query ''L858R'') example_entries_df) = 2"
    by (simp add: egfr_query_def example_entries_df_def matches_def in_context_def)
  have k: "distinct (map source_id example_interpretations)"
    and i: "hd example_interpretations \<in> set example_interpretations"
    by (simp_all add: example_interpretations_def)
  have e: "\<exists>e\<in>set example_entries_df. matches egfr_query ''L858R'' e \<and>
      entry_Source e = source_id (hd example_interpretations)"
    by (simp add: egfr_query_def example_entries_df_def example_interpretations_def matches_def
        in_context_def)
  from matcher_deduplicates [OF f v] k i e
  have "count_list [\<lparr>source_id = 0, interpretation_text = Some ''Sensitising mutation.'',
           citations = ''A'' @ [CHR 0x0A, CHR 0x0A] @ ''B''\<rparr>] (hd example_interpretations) = 1"
    by simp
  with f l show ?thesis by simp
qed

end
